theory Spec2Isabelle
  imports Complex_Main
begin

section \<open>Data model: a table of cells with named columns\<close>

text \<open>
  The program (\<^verbatim>\<open>Final_Project.py\<close>) works on one table loaded from a CSV file.
  A cell of the table is a missing value, a number or a string. A row is the list of
  its cells, in the order of the column names; a cell that a short row does not have
  reads as missing, as the CSV reader leaves it. A string is a list of characters with
  code points below 256.
\<close>

datatype cell = NaN | Num real | Str string

datatype error = KeyError | ValueError | AttributeError | IndexError

type_synonym row = "cell list"

record frame =
  columns :: "string list"
  rows :: "row list"

fun index_of :: "string \<Rightarrow> string list \<Rightarrow> nat option" where
  "index_of c [] = None"
| "index_of c (x # xs) = (if x = c then Some 0 else map_option Suc (index_of c xs))"

definition cell_at :: "row \<Rightarrow> nat \<Rightarrow> cell" where
  "cell_at r i = (if i < length r then r ! i else NaN)"

text \<open>\<^verbatim>\<open>data[column]\<close>: the cells of one column, or KeyError when there is no such column.\<close>

definition get_column :: "frame \<Rightarrow> string \<Rightarrow> error + cell list" where
  "get_column data column =
     (case index_of column (columns data) of
        None \<Rightarrow> Inl KeyError
      | Some i \<Rightarrow> Inr (map (\<lambda>r. cell_at r i) (rows data)))"

section \<open>Filter engine\<close>

text \<open>
  \<^verbatim>\<open>Series.isin(values)\<close>: membership of the cell among the given values; a missing
  cell is a member when the values hold a missing one.
\<close>

definition isin :: "cell \<Rightarrow> cell list \<Rightarrow> bool" where
  "isin v vals = (v \<in> set vals)"

text \<open>
  \<^verbatim>\<open>def filter_data(data, column, values): return data[data[column].isin(values)]\<close>
\<close>

definition filter_data :: "frame \<Rightarrow> string \<Rightarrow> cell list \<Rightarrow> error + frame" where
  "filter_data data column vals =
     (case index_of column (columns data) of
        None \<Rightarrow> Inl KeyError
      | Some i \<Rightarrow> Inr (data\<lparr>rows := filter (\<lambda>r. isin (cell_at r i) vals) (rows data)\<rparr>))"

section \<open>Density classification\<close>

text \<open>\<^verbatim>\<open>x.split('-')\<close>: the segments between the separators; never an empty list.\<close>

fun split_on :: "char \<Rightarrow> string \<Rightarrow> string list" where
  "split_on sep [] = [[]]"
| "split_on sep (c # cs) =
     (if c = sep then [] # split_on sep cs
      else (case split_on sep cs of
              [] \<Rightarrow> [[c]]
            | w # ws \<Rightarrow> (c # w) # ws))"

text \<open>\<^verbatim>\<open>segments[-1]\<close>: the last element, IndexError on an empty list.\<close>

definition last_item :: "'a list \<Rightarrow> error + 'a" where
  "last_item xs = (case rev xs of [] \<Rightarrow> Inl IndexError | x # _ \<Rightarrow> Inr x)"

text \<open>
  \<^verbatim>\<open>int(s)\<close> on a string, base 10: surrounding whitespace is dropped, one sign is
  allowed, then decimal digits, where single underscores may stand between two digits.
  Anything else is a ValueError (\<open>None\<close> here), and so is a literal of more than 4300
  digits. The whitespace that \<^verbatim>\<open>int\<close> drops is, among the code points below 256, the
  characters 9 to 13, the space 32, and 133 and 160; the separators 28 to 31 are not
  dropped.
\<close>

definition is_space :: "char \<Rightarrow> bool" where
  "is_space c = (of_char c \<in> {9, 10, 11, 12, 13, 32, 133, 160 :: nat})"

definition is_digit :: "char \<Rightarrow> bool" where
  "is_digit c = (48 \<le> (of_char c :: nat) \<and> (of_char c :: nat) \<le> 57)"

definition digit_val :: "char \<Rightarrow> nat" where
  "digit_val c = of_char c - 48"

definition strip :: "string \<Rightarrow> string" where
  "strip s = rev (dropWhile is_space (rev (dropWhile is_space s)))"

fun digits_of :: "string \<Rightarrow> nat list option" where
  "digits_of [] = None"
| "digits_of [c] = (if is_digit c then Some [digit_val c] else None)"
| "digits_of (c # d # cs) =
     (if is_digit c
      then map_option ((#) (digit_val c))
             (if d = CHR ''_'' then digits_of cs else digits_of (d # cs))
      else None)"

definition decimal :: "nat list \<Rightarrow> int" where
  "decimal ds = foldl (\<lambda>a d. 10 * a + int d) 0 ds"

definition py_int :: "string \<Rightarrow> int option" where
  "py_int s =
     (case strip s of
        [] \<Rightarrow> None
      | c # cs \<Rightarrow>
          (let neg = (c = CHR ''-'');
               body = (if c = CHR ''-'' \<or> c = CHR ''+'' then cs else c # cs)
           in case digits_of body of
                None \<Rightarrow> None
              | Some ds \<Rightarrow>
                  if length ds > 4300 then None
                  else Some (if neg then - decimal ds else decimal ds)))"

text \<open>
  The decimal numeral of a natural number, to say what \<^verbatim>\<open>int\<close> reads.
\<close>

fun numeral_of :: "nat \<Rightarrow> string" where
  "numeral_of n =
     (if n < 10 then [char_of (48 + n)]
      else numeral_of (n div 10) @ [char_of (48 + n mod 10)])"

declare numeral_of.simps [simp del]

text \<open>
  The lambda of the \<^verbatim>\<open>Density Category\<close> column:
  \<^verbatim>\<open>lambda x: 'High Density' if int(x.split('-')[-1]) > 1000 else 'Low Density'\<close>.
  A cell that is not a string has no \<^verbatim>\<open>split\<close> (AttributeError).
\<close>

definition density_category :: "cell \<Rightarrow> error + string" where
  "density_category x =
     (case x of
        Str s \<Rightarrow>
          (case last_item (split_on CHR ''-'' s) of
             Inl e \<Rightarrow> Inl e
           | Inr seg \<Rightarrow>
               (case py_int seg of
                  None \<Rightarrow> Inl ValueError
                | Some n \<Rightarrow> Inr (if n > 1000 then ''High Density'' else ''Low Density'')))
      | _ \<Rightarrow> Inl AttributeError)"

section \<open>Data preparation\<close>

text \<open>
  \<^verbatim>\<open>df.rename(columns={"Latitude": "lat", "Longitude": "lon"}, inplace=True)\<close>:
  the names that the mapping has are replaced, the others stay.
\<close>

definition rename :: "(string \<times> string) list \<Rightarrow> frame \<Rightarrow> frame" where
  "rename m data =
     data\<lparr>columns := map (\<lambda>c. case map_of m c of None \<Rightarrow> c | Some n \<Rightarrow> n) (columns data)\<rparr>"

text \<open>
  \<^verbatim>\<open>df[column] = values\<close>: the column is replaced where it stands, or added as the last
  one. The values are as many as the rows.
\<close>

definition fit :: "nat \<Rightarrow> row \<Rightarrow> row" where
  "fit n r = take n (r @ replicate (n - length r) NaN)"

definition set_column :: "frame \<Rightarrow> string \<Rightarrow> cell list \<Rightarrow> frame" where
  "set_column data column vals =
     (let n = length (columns data) in
      case index_of column (columns data) of
        Some i \<Rightarrow> data\<lparr>rows := map (\<lambda>(r, v). (fit n r)[i := v]) (zip (rows data) vals)\<rparr>
      | None \<Rightarrow> data\<lparr>columns := columns data @ [column],
                     rows := map (\<lambda>(r, v). fit n r @ [v]) (zip (rows data) vals)\<rparr>)"

text \<open>
  \<^verbatim>\<open>pd.to_numeric(series, errors='coerce')\<close>: a number stays, a string that reads as a
  number becomes that number, and every other value becomes missing. How a string reads
  as a floating-point number is the library's; it is the parameter \<open>str_to_float\<close>.
\<close>

definition coerce :: "(string \<Rightarrow> real option) \<Rightarrow> cell \<Rightarrow> cell" where
  "coerce str_to_float x =
     (case x of
        NaN \<Rightarrow> NaN
      | Num v \<Rightarrow> Num v
      | Str s \<Rightarrow> (case str_to_float s of None \<Rightarrow> NaN | Some v \<Rightarrow> Num v))"

definition to_numeric :: "(string \<Rightarrow> real option) \<Rightarrow> cell list \<Rightarrow> cell list" where
  "to_numeric str_to_float xs = map (coerce str_to_float) xs"

text \<open>
  Lines 31 and 32:
  \<^verbatim>\<open>df['lon'] = pd.to_numeric(df['lon'], errors='coerce')\<close>, then the same for
  \<^verbatim>\<open>'lat'\<close>.
\<close>

definition coerce_coordinates :: "(string \<Rightarrow> real option) \<Rightarrow> frame \<Rightarrow> error + frame" where
  "coerce_coordinates str_to_float data =
     (case get_column data ''lon'' of
        Inl e \<Rightarrow> Inl e
      | Inr lon \<Rightarrow>
          (let data1 = set_column data ''lon'' (to_numeric str_to_float lon) in
           case get_column data1 ''lat'' of
             Inl e \<Rightarrow> Inl e
           | Inr lat \<Rightarrow> Inr (set_column data1 ''lat'' (to_numeric str_to_float lat))))"

text \<open>\<^verbatim>\<open>Series.apply(f)\<close>: the results in order; the first exception ends it.\<close>

fun series_apply :: "('a \<Rightarrow> error + 'b) \<Rightarrow> 'a list \<Rightarrow> error + 'b list" where
  "series_apply f [] = Inr []"
| "series_apply f (x # xs) =
     (case f x of
        Inl e \<Rightarrow> Inl e
      | Inr y \<Rightarrow> (case series_apply f xs of Inl e \<Rightarrow> Inl e | Inr ys \<Rightarrow> Inr (y # ys)))"

text \<open>Line 35: the \<^verbatim>\<open>Density Category\<close> column.\<close>

definition add_density_category :: "frame \<Rightarrow> error + frame" where
  "add_density_category data =
     (case get_column data ''StoreNumber'' of
        Inl e \<Rightarrow> Inl e
      | Inr ids \<Rightarrow>
          (case series_apply density_category ids of
             Inl e \<Rightarrow> Inl e
           | Inr cats \<Rightarrow> Inr (set_column data ''Density Category'' (map Str cats))))"

text \<open>Lines 30 to 35, on the table as loaded.\<close>

definition prepare :: "(string \<Rightarrow> real option) \<Rightarrow> frame \<Rightarrow> error + frame" where
  "prepare str_to_float raw =
     (case coerce_coordinates str_to_float
             (rename [(''Latitude'', ''lat''), (''Longitude'', ''lon'')] raw) of
        Inl e \<Rightarrow> Inl e
      | Inr data \<Rightarrow> add_density_category data)"

section \<open>Aggregations\<close>

subsection \<open>Sorting and counting\<close>

text \<open>
  Modelled from the spec: the order in which the library's sorting routine leaves entries
  that the sorting order does not separate. The routine is called by
  \<^verbatim>\<open>value_counts\<close> and \<^verbatim>\<open>sort_values\<close>, with no sorting kind asked for, and its
  code is not part of the program's source. The spec has ties broken by the order of
  encounter and asks for a stable sort, so the sort is a stable insertion sort: among such
  entries, the one that stands first stays first.
\<close>

fun insert_by :: "('a \<Rightarrow> 'a \<Rightarrow> bool) \<Rightarrow> 'a \<Rightarrow> 'a list \<Rightarrow> 'a list" where
  "insert_by le x [] = [x]"
| "insert_by le x (y # ys) = (if le x y then x # y # ys else y # insert_by le x ys)"

definition sort_by :: "('a \<Rightarrow> 'a \<Rightarrow> bool) \<Rightarrow> 'a list \<Rightarrow> 'a list" where
  "sort_by le xs = foldr (insert_by le) xs []"

definition dropna :: "cell list \<Rightarrow> cell list" where
  "dropna xs = filter (\<lambda>c. c \<noteq> NaN) xs"

text \<open>\<^verbatim>\<open>unique()\<close>: the distinct values in the order in which they are first seen.\<close>

definition unique :: "'a list \<Rightarrow> 'a list" where
  "unique xs = rev (remdups (rev xs))"

text \<open>The order of counted values: larger count first.\<close>

definition by_count_desc :: "('k \<times> nat) \<Rightarrow> ('k \<times> nat) \<Rightarrow> bool" where
  "by_count_desc a b = (snd b \<le> snd a)"

text \<open>
  The order by descending count, refined among equal counts by an order \<open>Q\<close> of the
  values.
\<close>

definition count_then :: "('k \<Rightarrow> 'k \<Rightarrow> bool) \<Rightarrow> ('k \<times> nat) \<Rightarrow> ('k \<times> nat) \<Rightarrow> bool" where
  "count_then Q a b = (snd b < snd a \<or> (snd a = snd b \<and> Q (fst a) (fst b)))"

text \<open>
  \<^verbatim>\<open>Series.value_counts()\<close>: missing values are left out, every distinct value gets the
  number of its occurrences, and the result is sorted by that number, descending.
\<close>

definition value_counts :: "cell list \<Rightarrow> (cell \<times> nat) list" where
  "value_counts xs =
     (let ys = dropna xs in
      sort_by by_count_desc (map (\<lambda>k. (k, count_list ys k)) (unique ys)))"

text \<open>
  \<^verbatim>\<open>Series.nlargest(n)\<close> (\<^verbatim>\<open>keep='first'\<close>): n times, the first of the entries with
  the largest value is taken out of the series.
\<close>

fun first_max :: "('k \<times> nat) \<Rightarrow> ('k \<times> nat) list \<Rightarrow> ('k \<times> nat)" where
  "first_max m [] = m"
| "first_max m (x # xs) = first_max (if snd m < snd x then x else m) xs"

fun nlargest :: "nat \<Rightarrow> ('k \<times> nat) list \<Rightarrow> ('k \<times> nat) list" where
  "nlargest 0 xs = []"
| "nlargest (Suc n) [] = []"
| "nlargest (Suc n) (x # xs) =
     (let m = first_max x xs in m # nlargest n (remove1 m (x # xs)))"

text \<open>Line 150: \<^verbatim>\<open>filtered_data['City'].value_counts().nlargest(10)\<close>.\<close>

definition city_counts :: "frame \<Rightarrow> error + (cell \<times> nat) list" where
  "city_counts filtered_data =
     (case get_column filtered_data ''City'' of
        Inl e \<Rightarrow> Inl e
      | Inr city \<Rightarrow> Inr (nlargest 10 (value_counts city)))"

text \<open>
  Lines 168 to 171: the counts as a two-column table, sorted by the count, descending,
  and its first ten rows (\<^verbatim>\<open>iloc[:10]\<close>).
\<close>

definition top_cities :: "frame \<Rightarrow> error + (cell \<times> nat) list" where
  "top_cities filtered_data =
     (case get_column filtered_data ''City'' of
        Inl e \<Rightarrow> Inl e
      | Inr city \<Rightarrow> Inr (take 10 (sort_by by_count_desc (value_counts city))))"

text \<open>Lines 181 and 189: \<^verbatim>\<open>data['OwnershipType'].value_counts()\<close>.\<close>

definition ownership_counts :: "frame \<Rightarrow> error + (cell \<times> nat) list" where
  "ownership_counts data =
     (case get_column data ''OwnershipType'' of
        Inl e \<Rightarrow> Inl e
      | Inr own \<Rightarrow> Inr (value_counts own))"

text \<open>
  What a ranking of the first n values of a column is to be: \<open>first_seen\<close> is the position
  at which a value first occurs; an entry ranks before another when its count is larger, or
  the counts are equal and its value is seen first. A top-n ranking holds present values
  with the number of their occurrences, each value once, in ranking order; it has n
  entries, or all values when there are fewer; and every value left out ranks after all
  entries.
\<close>

definition first_seen :: "'a list \<Rightarrow> 'a \<Rightarrow> nat" where
  "first_seen xs x = length (takeWhile (\<lambda>y. y \<noteq> x) xs)"

definition ranks_before :: "cell list \<Rightarrow> (cell \<times> nat) \<Rightarrow> (cell \<times> nat) \<Rightarrow> bool" where
  "ranks_before xs a b =
     (snd b < snd a \<or> (snd a = snd b \<and> first_seen xs (fst a) < first_seen xs (fst b)))"

definition top_ranking :: "nat \<Rightarrow> cell list \<Rightarrow> (cell \<times> nat) list \<Rightarrow> bool" where
  "top_ranking n xs r =
     ((\<forall>a \<in> set r. fst a \<noteq> NaN \<and> fst a \<in> set xs \<and> snd a = count_list xs (fst a))
      \<and> distinct (map fst r)
      \<and> sorted_wrt (ranks_before xs) r
      \<and> length r = min n (card (set xs - {NaN}))
      \<and> (\<forall>c \<in> set xs - {NaN}. c \<notin> fst ` set r \<longrightarrow>
            (\<forall>a \<in> set r. ranks_before xs a (c, count_list xs c))))"

subsection \<open>Cross tables\<close>

text \<open>
  Group keys are sorted: numbers before strings, strings by their characters.
\<close>

fun str_le :: "string \<Rightarrow> string \<Rightarrow> bool" where
  "str_le [] ys = True"
| "str_le (x # xs) [] = False"
| "str_le (x # xs) (y # ys) =
     ((of_char x :: nat) < of_char y \<or> (x = y \<and> str_le xs ys))"

fun cell_le :: "cell \<Rightarrow> cell \<Rightarrow> bool" where
  "cell_le (Num a) (Num b) = (a \<le> b)"
| "cell_le (Num a) (Str t) = True"
| "cell_le (Str s) (Num b) = False"
| "cell_le (Str s) (Str t) = str_le s t"
| "cell_le NaN y = (y = NaN)"
| "cell_le x NaN = True"

record crosstab =
  ct_index :: "cell list"
  ct_columns :: "cell list"
  ct_cells :: "nat list list"

text \<open>
  The table of counts of a grouping by two keys, one row for each first key and one
  column for each second key that occurs, and 0 where a pair does not occur
  (\<^verbatim>\<open>fill_value=0\<close>). \<open>groups\<close> are the key pairs that make the groups, \<open>counted\<close>
  those of the rows that are counted.
\<close>

definition cross_counts :: "(cell \<times> cell) list \<Rightarrow> (cell \<times> cell) list \<Rightarrow> crosstab" where
  "cross_counts groups counted =
     (let ikeys = sort_by cell_le (unique (map fst groups));
          ckeys = sort_by cell_le (unique (map snd groups))
      in \<lparr>ct_index = ikeys, ct_columns = ckeys,
          ct_cells = map (\<lambda>a. map (\<lambda>b. count_list counted (a, b)) ckeys) ikeys\<rparr>)"

text \<open>The rows that a grouping by the columns i and c keeps: both keys present.\<close>

definition grouped :: "nat \<Rightarrow> nat \<Rightarrow> row list \<Rightarrow> row list" where
  "grouped i c rs = filter (\<lambda>r. cell_at r i \<noteq> NaN \<and> cell_at r c \<noteq> NaN) rs"

definition keys_of :: "nat \<Rightarrow> nat \<Rightarrow> row list \<Rightarrow> (cell \<times> cell) list" where
  "keys_of i c rs = map (\<lambda>r. (cell_at r i, cell_at r c)) rs"

text \<open>
  \<^verbatim>\<open>pd.pivot_table(data, values=v, index=[i], columns=c, aggfunc='count', fill_value=0)\<close>:
  the rows are grouped by the two keys, and a cell is the number of present values of
  the column v in its group.
\<close>

definition pivot_table :: "frame \<Rightarrow> string \<Rightarrow> string \<Rightarrow> string \<Rightarrow> error + crosstab" where
  "pivot_table data vals idx cols =
     (case (index_of vals (columns data), index_of idx (columns data),
            index_of cols (columns data)) of
        (Some v, Some i, Some c) \<Rightarrow>
          (let g = grouped i c (rows data) in
           Inr (cross_counts (keys_of i c g)
                  (keys_of i c (filter (\<lambda>r. cell_at r v \<noteq> NaN) g))))
      | _ \<Rightarrow> Inl KeyError)"

text \<open>\<^verbatim>\<open>data.groupby([a, b]).size().unstack(fill_value=0)\<close>.\<close>

definition groupby_size_unstack :: "frame \<Rightarrow> string \<Rightarrow> string \<Rightarrow> error + crosstab" where
  "groupby_size_unstack data a b =
     (case (index_of a (columns data), index_of b (columns data)) of
        (Some i, Some c) \<Rightarrow>
          (let g = keys_of i c (grouped i c (rows data)) in Inr (cross_counts g g))
      | _ \<Rightarrow> Inl KeyError)"

text \<open>The sum over all cells of a cross table.\<close>

definition cell_total :: "crosstab \<Rightarrow> nat" where
  "cell_total t = sum_list (map sum_list (ct_cells t))"

text \<open>
  Line 225: the \<^verbatim>\<open>Year\<close> column,
  \<^verbatim>\<open>pd.to_datetime(df['FirstSeen'], format='%m/%d/%Y %I:%M:%S %p').dt.year\<close>.
  A missing time stamp gives a missing year; a value that does not read in the format is
  a ValueError. Reading a string in the format is the library's; it is the parameter
  \<open>strptime_year\<close>.
\<close>

definition to_year :: "(string \<Rightarrow> int option) \<Rightarrow> cell \<Rightarrow> error + cell" where
  "to_year strptime_year x =
     (case x of
        NaN \<Rightarrow> Inr NaN
      | Num v \<Rightarrow> Inl ValueError
      | Str s \<Rightarrow> (case strptime_year s of None \<Rightarrow> Inl ValueError
                                         | Some y \<Rightarrow> Inr (Num (of_int y))))"

definition add_year :: "(string \<Rightarrow> int option) \<Rightarrow> frame \<Rightarrow> error + frame" where
  "add_year strptime_year data =
     (case get_column data ''FirstSeen'' of
        Inl e \<Rightarrow> Inl e
      | Inr seen \<Rightarrow>
          (case series_apply (to_year strptime_year) seen of
             Inl e \<Rightarrow> Inl e
           | Inr years \<Rightarrow> Inr (set_column data ''Year'' years)))"

text \<open>Lines 225 to 228, on the whole table.\<close>

definition store_counts_by_year :: "(string \<Rightarrow> int option) \<Rightarrow> frame \<Rightarrow> error + crosstab" where
  "store_counts_by_year strptime_year data =
     (case add_year strptime_year data of
        Inl e \<Rightarrow> Inl e
      | Inr data' \<Rightarrow> groupby_size_unstack data' ''Year'' ''OwnershipType'')"

text \<open>A row has a value in a column: the table has the column and the cell is not missing.\<close>

definition has_value :: "frame \<Rightarrow> string \<Rightarrow> row \<Rightarrow> bool" where
  "has_value data column r =
     (case index_of column (columns data) of None \<Rightarrow> False | Some i \<Rightarrow> cell_at r i \<noteq> NaN)"

section \<open>The script\<close>

text \<open>
  The tables that the script computes and hands to the displays, from the table as
  loaded, the selected country and the selected cities. An exception ends the script.
  The displays themselves (tables, map, charts) are not modelled.
\<close>

record views =
  df_starbucks :: frame
  filtered_data :: frame
  pivot :: crosstab
  city_chart :: "(cell \<times> nat) list"
  city_table :: "(cell \<times> nat) list"
  ownership_pie :: "(cell \<times> nat) list"
  ownership_bar :: "(cell \<times> nat) list"
  year_counts :: crosstab

text \<open>Lines 40 to 50: the country filter, then the city filter when cities are selected.\<close>

definition select_rows :: "frame \<Rightarrow> cell \<Rightarrow> cell list \<Rightarrow> error + frame" where
  "select_rows data selected_country selected_cities =
     (case filter_data data ''CountryCode'' [selected_country] of
        Inl e \<Rightarrow> Inl e
      | Inr by_country \<Rightarrow>
          (case get_column by_country ''City'' of
             Inl e \<Rightarrow> Inl e
           | Inr city_list \<Rightarrow>
               if selected_cities \<noteq> [] then filter_data by_country ''City'' selected_cities
               else Inr by_country))"

definition and_then :: "error + 'a \<Rightarrow> ('a \<Rightarrow> error + 'b) \<Rightarrow> error + 'b" where
  "and_then x f = (case x of Inl e \<Rightarrow> Inl e | Inr v \<Rightarrow> f v)"

definition script ::
  "(string \<Rightarrow> real option) \<Rightarrow> (string \<Rightarrow> int option) \<Rightarrow> frame \<Rightarrow> cell \<Rightarrow> cell list \<Rightarrow> error + views"
where
  "script str_to_float strptime_year raw selected_country selected_cities =
     and_then (prepare str_to_float raw) (\<lambda>df.
     and_then (select_rows df selected_country selected_cities) (\<lambda>fd.
     and_then (pivot_table fd ''StoreNumber'' ''City'' ''OwnershipType'') (\<lambda>pv.
     and_then (city_counts fd) (\<lambda>chart.
     and_then (top_cities fd) (\<lambda>tab.
     and_then (ownership_counts fd) (\<lambda>pie.
     and_then (ownership_counts df) (\<lambda>bar.
     and_then (store_counts_by_year strptime_year df) (\<lambda>yc.
       Inr \<lparr>df_starbucks = df, filtered_data = fd, pivot = pv, city_chart = chart,
            city_table = tab, ownership_pie = pie, ownership_bar = bar,
            year_counts = yc\<rparr>))))))))"

section \<open>Example readers\<close>

text \<open>
  Two readers for the examples below. \<open>stamp_year\<close> reads the year of a time stamp of
  the fixed width \<^verbatim>\<open>MM/DD/YYYY HH:MM:SS AM\<close>, which the format of line 225 accepts;
  \<open>no_float\<close> reads no string as a number (the coordinates of the examples are numbers
  already, or text that is not numeric).
\<close>

definition stamp_year :: "string \<Rightarrow> int option" where
  "stamp_year s = (if length s = 22 then py_int (take 4 (drop 6 s)) else None)"

definition no_float :: "string \<Rightarrow> real option" where
  "no_float s = None"

section \<open>Properties of the classification\<close>

lemma split_on_not_Nil: "split_on sep s \<noteq> []"
  by (induction s) (auto split: list.splits)

lemma last_item_split_on: "last_item (split_on sep s) = Inr (last (split_on sep s))"
proof -
  obtain x xs where "rev (split_on sep s) = x # xs"
    using split_on_not_Nil [of sep s] by (cases "rev (split_on sep s)") auto
  moreover from this have "last (split_on sep s) = x"
    by (metis last_rev list.sel(1) rev_rev_ident)
  ultimately show ?thesis by (simp add: last_item_def)
qed

lemma series_apply_Inr_all:
  "series_apply f xs = Inr ys \<Longrightarrow> x \<in> set xs \<Longrightarrow> \<exists>y. f x = Inr y"
  by (induction xs arbitrary: ys) (auto split: sum.splits)

lemma split_on_no_sep: "sep \<notin> set s \<Longrightarrow> split_on sep s = [s]"
  by (induction s) auto

lemma length_split_on: "length (split_on sep s) = Suc (count_list s sep)"
  by (induction s) (auto split: list.splits)

lemma last_split_on_suffix:
  "sep \<notin> set seg \<Longrightarrow> last (split_on sep (p @ sep # seg)) = seg"
proof (induction p)
  case Nil
  then show ?case by (simp add: split_on_no_sep)
next
  case (Cons c p)
  have "length (split_on sep (p @ sep # seg)) \<ge> 2"
    by (simp add: length_split_on)
  then obtain w v ws where "split_on sep (p @ sep # seg) = w # v # ws"
    by (metis Suc_le_length_iff numeral_2_eq_2)
  with Cons show ?case by auto
qed

lemma of_char_digit: "d < 10 \<Longrightarrow> of_char (char_of (48 + d)) = (48 + d :: nat)"
  for d :: nat
  by simp

lemma is_digit_char: "d < 10 \<Longrightarrow> is_digit (char_of (48 + d))" for d :: nat
  by (simp add: is_digit_def)

lemma digit_val_char: "d < 10 \<Longrightarrow> digit_val (char_of (48 + d)) = d" for d :: nat
  unfolding digit_val_def by (simp add: of_char_digit del: of_char_of)

lemma is_digit_plain:
  "is_digit c \<Longrightarrow> \<not> is_space c \<and> c \<noteq> CHR ''_'' \<and> c \<noteq> CHR ''-'' \<and> c \<noteq> CHR ''+''"
  by (auto simp: is_digit_def is_space_def)

lemma digits_of_snoc:
  "digits_of xs = Some ds \<Longrightarrow> is_digit c \<Longrightarrow> digits_of (xs @ [c]) = Some (ds @ [digit_val c])"
proof (induction xs arbitrary: ds rule: digits_of.induct)
  case 1
  then show ?case by simp
next
  case (2 a)
  then show ?case by (auto simp: is_digit_plain split: if_splits)
next
  case (3 a d cs)
  then show ?case by (auto split: if_splits)
qed

lemma decimal_snoc: "decimal (ds @ [d]) = 10 * decimal ds + int d"
  by (simp add: decimal_def)

lemma numeral_of_digits:
  "\<exists>ds. digits_of (numeral_of n) = Some ds \<and> decimal ds = int n
     \<and> length ds = length (numeral_of n)
     \<and> numeral_of n \<noteq> [] \<and> (\<forall>c \<in> set (numeral_of n). is_digit c)"
proof (induction n rule: numeral_of.induct)
  case (1 n)
  show ?case
  proof (cases "n < 10")
    case True
    then show ?thesis
      by (simp add: numeral_of.simps [of n] is_digit_char digit_val_char decimal_def
          del: of_char_of)
  next
    case False
    with 1 obtain ds where ds: "digits_of (numeral_of (n div 10)) = Some ds"
      and v: "decimal ds = int (n div 10)"
      and l: "length ds = length (numeral_of (n div 10))"
      and d: "\<forall>c \<in> set (numeral_of (n div 10)). is_digit c"
      by blast
    have m: "n mod 10 < 10" by simp
    from digits_of_snoc [OF ds is_digit_char [OF m]]
    have "digits_of (numeral_of n) = Some (ds @ [n mod 10])"
      using False by (simp add: numeral_of.simps [of n] digit_val_char [OF m] del: of_char_of)
    moreover have "decimal (ds @ [n mod 10]) = int n"
      using v by (simp add: decimal_snoc zdiv_int zmod_int)
    ultimately show ?thesis
      using False l d is_digit_char [OF m]
      by (simp add: numeral_of.simps [of n] del: of_char_of)
  qed
qed

lemma strip_digits:
  assumes "s \<noteq> []" and "\<forall>c \<in> set s. is_digit c"
  shows "strip s = s"
proof -
  have dw: "dropWhile is_space t = t" if "t \<noteq> []" "\<not> is_space (hd t)" for t
    using that by (cases t) auto
  from assms have "\<not> is_space (hd s)" "\<not> is_space (hd (rev s))"
    by (simp_all add: is_digit_plain hd_rev)
  with assms(1) have "dropWhile is_space s = s" "dropWhile is_space (rev s) = rev s"
    by (simp_all add: dw)
  then show ?thesis by (simp add: strip_def)
qed

lemma py_int_numeral_of:
  assumes "length (numeral_of n) \<le> 4300"
  shows "py_int (numeral_of n) = Some (int n)"
proof -
  from numeral_of_digits [of n] obtain ds where ds: "digits_of (numeral_of n) = Some ds"
    and v: "decimal ds = int n" and l: "length ds = length (numeral_of n)"
    and ne: "numeral_of n \<noteq> []" and d: "\<forall>c \<in> set (numeral_of n). is_digit c"
    by blast
  from ne obtain c cs where s: "numeral_of n = c # cs" by (cases "numeral_of n") auto
  with d have sg: "c \<noteq> CHR ''-''" "c \<noteq> CHR ''+''" by (simp_all add: is_digit_plain)
  have st: "strip (numeral_of n) = c # cs"
    using strip_digits [OF ne d] s by simp
  have b: "digits_of (c # cs) = Some ds" using ds s by simp
  have "\<not> 4300 < length ds" using l assms by simp
  with st b v sg show ?thesis
    unfolding py_int_def Let_def by simp
qed

text \<open>
  Every identifier that ends in \<^verbatim>\<open>-\<close> and the decimal numeral of n is classified by n.
\<close>

lemma density_category_numeral_suffix:
  assumes "length (numeral_of n) \<le> 4300"
  shows "density_category (Str (p @ CHR ''-'' # numeral_of n)) =
     Inr (if 1000 < n then ''High Density'' else ''Low Density'')"
proof -
  from numeral_of_digits [of n] have "CHR ''-'' \<notin> set (numeral_of n)"
    using is_digit_plain by blast
  then have "last (split_on CHR ''-'' (p @ CHR ''-'' # numeral_of n)) = numeral_of n"
    by (rule last_split_on_suffix)
  then show ?thesis
    using py_int_numeral_of [OF assms] by (simp add: density_category_def last_item_split_on)
qed

text \<open>
  Claim C1. When the last of the segments of a store identifier between \<^verbatim>\<open>-\<close> reads as
  the integer n, the classification returns High Density if and only if \<open>1000 < n\<close>, and
  Low Density otherwise; so 1000 itself is Low Density.
\<close>

theorem density_category_threshold:
  assumes "py_int (last (split_on CHR ''-'' s)) = Some n"
  shows "density_category (Str s) = Inr (if 1000 < n then ''High Density'' else ''Low Density'')
    \<and> (density_category (Str s) = Inr ''High Density'' \<longleftrightarrow> 1000 < n)
    \<and> (density_category (Str s) = Inr ''Low Density'' \<longleftrightarrow> n \<le> 1000)"
  using assms by (simp add: density_category_def last_item_split_on)

theorem density_category_threshold_witness:
  "py_int (last (split_on CHR ''-'' ''SB-001-1500'')) = Some 1500
   \<and> density_category (Str ''SB-001-1500'') = Inr ''High Density''
   \<and> py_int (last (split_on CHR ''-'' ''SB-001-1000'')) = Some 1000
   \<and> density_category (Str ''SB-001-1000'') = Inr ''Low Density''
   \<and> py_int (last (split_on CHR ''-'' ''SB-001-999'')) = Some 999
   \<and> density_category (Str ''SB-001-999'') = Inr ''Low Density''
   \<and> py_int (last (split_on CHR ''-'' (''SB-001-'' @ CHR 0xA0 # ''1500''))) = Some 1500
   \<and> density_category (Str (''SB-001-'' @ CHR 0xA0 # ''1500'')) = Inr ''High Density''"
proof -
  have a: "py_int (last (split_on CHR ''-'' ''SB-001-1500'')) = Some 1500" by code_simp
  have b: "py_int (last (split_on CHR ''-'' ''SB-001-1000'')) = Some 1000" by code_simp
  have c: "py_int (last (split_on CHR ''-'' ''SB-001-999'')) = Some 999" by code_simp
  have d: "py_int (last (split_on CHR ''-'' (''SB-001-'' @ CHR 0xA0 # ''1500''))) = Some 1500"
    by code_simp
  have a': "density_category (Str ''SB-001-1500'') = Inr ''High Density''"
    using density_category_threshold [OF a] by simp
  have b': "density_category (Str ''SB-001-1000'') = Inr ''Low Density''"
    using density_category_threshold [OF b] by simp
  have c': "density_category (Str ''SB-001-999'') = Inr ''Low Density''"
    using density_category_threshold [OF c] by simp
  have d': "density_category (Str (''SB-001-'' @ CHR 0xA0 # ''1500'')) = Inr ''High Density''"
    using density_category_threshold [OF d] by simp
  from a a' b b' c c' d d' show ?thesis by (intro conjI)
qed

text \<open>
  Claim C5. When the last segment of a store identifier does not read as an integer, the
  classification of that identifier is a ValueError and no category at all; and the
  computation of the \<^verbatim>\<open>Density Category\<close> column of a table that holds such an
  identifier ends with an exception.
\<close>

theorem density_category_malformed:
  assumes "py_int (last (split_on CHR ''-'' s)) = None"
  shows "density_category (Str s) = Inl ValueError
    \<and> (\<forall>c. density_category (Str s) \<noteq> Inr c)
    \<and> (\<forall>data ids. get_column data ''StoreNumber'' = Inr ids \<longrightarrow> Str s \<in> set ids
          \<longrightarrow> (\<exists>e. add_density_category data = Inl e))"
proof -
  have v: "density_category (Str s) = Inl ValueError"
    using assms by (simp add: density_category_def last_item_split_on)
  have "\<exists>e. add_density_category data = Inl e"
    if g: "get_column data ''StoreNumber'' = Inr ids" and m: "Str s \<in> set ids" for data ids
  proof (cases "series_apply density_category ids")
    case (Inl e)
    with g show ?thesis by (simp add: add_density_category_def)
  next
    case (Inr cats)
    from series_apply_Inr_all [OF Inr m] v show ?thesis by simp
  qed
  with v show ?thesis by simp
qed

theorem density_category_malformed_witness:
  "py_int (last (split_on CHR ''-'' ''SB-001-abc'')) = None
   \<and> density_category (Str ''SB-001-abc'') = Inl ValueError
   \<and> get_column \<lparr>columns = [''StoreNumber''], rows = [[Str ''SB-001-1500''], [Str ''SB-001-abc'']]\<rparr>
        ''StoreNumber'' = Inr [Str ''SB-001-1500'', Str ''SB-001-abc'']
   \<and> (\<exists>e. add_density_category
         \<lparr>columns = [''StoreNumber''], rows = [[Str ''SB-001-1500''], [Str ''SB-001-abc'']]\<rparr> = Inl e)
   \<and> py_int (last (split_on CHR ''-'' (''SB-001-'' @ CHR 0x1C # ''1500''))) = None
   \<and> density_category (Str (''SB-001-'' @ CHR 0x1C # ''1500'')) = Inl ValueError"
proof -
  let ?d = "\<lparr>columns = [''StoreNumber''], rows = [[Str ''SB-001-1500''], [Str ''SB-001-abc'']]\<rparr>"
  have a: "py_int (last (split_on CHR ''-'' ''SB-001-abc'')) = None" by code_simp
  have g: "get_column ?d ''StoreNumber'' = Inr [Str ''SB-001-1500'', Str ''SB-001-abc'']"
    by (simp add: get_column_def cell_at_def)
  have m: "Str ''SB-001-abc'' \<in> set [Str ''SB-001-1500'', Str ''SB-001-abc'']" by simp
  from density_category_malformed [OF a]
  have v: "density_category (Str ''SB-001-abc'') = Inl ValueError"
    and f: "\<And>data ids. get_column data ''StoreNumber'' = Inr ids \<Longrightarrow> Str ''SB-001-abc'' \<in> set ids
          \<Longrightarrow> \<exists>e. add_density_category data = Inl e"
    by blast+
  have b: "py_int (last (split_on CHR ''-'' (''SB-001-'' @ CHR 0x1C # ''1500''))) = None"
    by code_simp
  have w: "density_category (Str (''SB-001-'' @ CHR 0x1C # ''1500'')) = Inl ValueError"
    using density_category_malformed [OF b] by blast
  from a v g f [OF g m] b w show ?thesis by (intro conjI)
qed

section \<open>Properties of the filter\<close>

text \<open>
  Claim C2. For a column that the table has, \<open>filter_data\<close> returns the table with
  exactly the rows whose cell in that column is among the allowed values, in their order;
  two lists of allowed values with the same elements give the same result; and when no
  row matches, the result is the table with no rows, not an error.
\<close>

theorem filter_data_members:
  assumes "index_of column (columns data) = Some i"
  shows "filter_data data column vals =
           Inr (data\<lparr>rows := filter (\<lambda>r. cell_at r i \<in> set vals) (rows data)\<rparr>)
    \<and> (set vals' = set vals \<longrightarrow> filter_data data column vals' = filter_data data column vals)
    \<and> ((\<forall>r \<in> set (rows data). cell_at r i \<notin> set vals)
          \<longrightarrow> filter_data data column vals = Inr (data\<lparr>rows := []\<rparr>))"
  using assms by (simp add: filter_data_def isin_def)

theorem filter_data_members_witness:
  "index_of ''City'' (columns \<lparr>columns = [''City'', ''Name''],
         rows = [[Str ''Lima'', Str ''a''], [NaN, Str ''b''], [Str ''Cusco'', Str ''c'']]\<rparr>) = Some 0
   \<and> filter_data \<lparr>columns = [''City'', ''Name''],
         rows = [[Str ''Lima'', Str ''a''], [NaN, Str ''b''], [Str ''Cusco'', Str ''c'']]\<rparr>
       ''City'' [Str ''Cusco'', Str ''Lima'']
     = Inr \<lparr>columns = [''City'', ''Name''],
         rows = [[Str ''Lima'', Str ''a''], [Str ''Cusco'', Str ''c'']]\<rparr>
   \<and> filter_data \<lparr>columns = [''City'', ''Name''],
         rows = [[Str ''Lima'', Str ''a''], [NaN, Str ''b''], [Str ''Cusco'', Str ''c'']]\<rparr>
       ''City'' [Str ''Lima'', Str ''Cusco'', Str ''Lima'']
     = Inr \<lparr>columns = [''City'', ''Name''],
         rows = [[Str ''Lima'', Str ''a''], [Str ''Cusco'', Str ''c'']]\<rparr>
   \<and> filter_data \<lparr>columns = [''City'', ''Name''],
         rows = [[Str ''Lima'', Str ''a''], [NaN, Str ''b''], [Str ''Cusco'', Str ''c'']]\<rparr>
       ''City'' [Str ''Paris'']
     = Inr \<lparr>columns = [''City'', ''Name''], rows = []\<rparr>"
proof -
  let ?d = "\<lparr>columns = [''City'', ''Name''],
         rows = [[Str ''Lima'', Str ''a''], [NaN, Str ''b''], [Str ''Cusco'', Str ''c'']]\<rparr>"
  have i: "index_of ''City'' (columns ?d) = Some 0" by simp
  have p: "\<forall>r \<in> set (rows ?d). cell_at r 0 \<notin> set [Str ''Paris'']"
    by (simp add: cell_at_def)
  have s: "set [Str ''Lima'', Str ''Cusco'', Str ''Lima''] = set [Str ''Cusco'', Str ''Lima'']"
    by auto
  from filter_data_members [OF i, of "[Str ''Cusco'', Str ''Lima'']"
      "[Str ''Lima'', Str ''Cusco'', Str ''Lima'']"]
  have a: "filter_data ?d ''City'' [Str ''Cusco'', Str ''Lima'']
      = Inr (?d\<lparr>rows := filter (\<lambda>r. cell_at r 0 \<in> set [Str ''Cusco'', Str ''Lima'']) (rows ?d)\<rparr>)"
    and b: "set [Str ''Lima'', Str ''Cusco'', Str ''Lima''] = set [Str ''Cusco'', Str ''Lima'']
      \<longrightarrow> filter_data ?d ''City'' [Str ''Lima'', Str ''Cusco'', Str ''Lima'']
        = filter_data ?d ''City'' [Str ''Cusco'', Str ''Lima'']"
    by blast+
  from filter_data_members [OF i, of "[Str ''Paris'']"] p
  have c: "filter_data ?d ''City'' [Str ''Paris''] = Inr (?d\<lparr>rows := []\<rparr>)"
    by blast
  have a': "filter_data ?d ''City'' [Str ''Cusco'', Str ''Lima'']
      = Inr \<lparr>columns = [''City'', ''Name''],
         rows = [[Str ''Lima'', Str ''a''], [Str ''Cusco'', Str ''c'']]\<rparr>"
    unfolding a by (simp add: cell_at_def)
  have b': "filter_data ?d ''City'' [Str ''Lima'', Str ''Cusco'', Str ''Lima'']
      = Inr \<lparr>columns = [''City'', ''Name''],
         rows = [[Str ''Lima'', Str ''a''], [Str ''Cusco'', Str ''c'']]\<rparr>"
    using b s a' by simp
  have c': "filter_data ?d ''City'' [Str ''Paris''] = Inr \<lparr>columns = [''City'', ''Name''], rows = []\<rparr>"
    unfolding c by simp
  from i a' b' c' show ?thesis by (intro conjI)
qed

text \<open>
  Claim C7. Filtering is idempotent: filtering the result of \<open>filter_data\<close> again, by the
  same column and the same allowed values, returns that result.
\<close>

theorem filter_data_idempotent:
  assumes "filter_data data column vals = Inr out"
  shows "filter_data out column vals = Inr out"
  using assms by (auto simp: filter_data_def split: option.splits)

theorem filter_data_idempotent_witness:
  "filter_data \<lparr>columns = [''City''], rows = [[Str ''Lima''], [NaN], [Str ''Cusco'']]\<rparr>
       ''City'' [Str ''Lima'']
     = Inr \<lparr>columns = [''City''], rows = [[Str ''Lima'']]\<rparr>
   \<and> filter_data \<lparr>columns = [''City''], rows = [[Str ''Lima'']]\<rparr> ''City'' [Str ''Lima'']
     = Inr \<lparr>columns = [''City''], rows = [[Str ''Lima'']]\<rparr>"
proof -
  have a: "filter_data \<lparr>columns = [''City''], rows = [[Str ''Lima''], [NaN], [Str ''Cusco'']]\<rparr>
       ''City'' [Str ''Lima'']
     = Inr \<lparr>columns = [''City''], rows = [[Str ''Lima'']]\<rparr>"
    by (simp add: filter_data_def isin_def cell_at_def)
  show ?thesis using a filter_data_idempotent [OF a] by simp
qed

section \<open>Properties of the data preparation\<close>

lemma index_of_less: "index_of c xs = Some i \<Longrightarrow> i < length xs"
  by (induction xs arbitrary: i) (auto split: if_splits)

lemma index_of_nth: "index_of c xs = Some i \<Longrightarrow> xs ! i = c"
  by (induction xs arbitrary: i) (auto split: if_splits)

lemma index_of_append: "index_of c xs = Some i \<Longrightarrow> index_of c (xs @ ys) = Some i"
  by (induction xs arbitrary: i) (auto split: if_splits)

lemma index_of_inj: "index_of a xs = Some i \<Longrightarrow> index_of b xs = Some i \<Longrightarrow> a = b"
  by (metis index_of_nth)

lemma cell_at_fit: "k < n \<Longrightarrow> cell_at (fit n r) k = cell_at r k"
  by (auto simp: cell_at_def fit_def nth_append)

lemma length_fit: "length (fit n r) = n"
  by (simp add: fit_def)

lemma cell_at_fit_update:
  "k < n \<Longrightarrow> i < n \<Longrightarrow> cell_at ((fit n r)[i := v]) k = (if k = i then v else cell_at r k)"
  using cell_at_fit [of k n r] by (auto simp: cell_at_def length_fit)

lemma cell_at_fit_snoc:
  "k < n \<Longrightarrow> cell_at (fit n r @ [v]) k = cell_at r k"
  using cell_at_fit [of k n r] by (auto simp: cell_at_def length_fit nth_append)

lemma cell_at_fit_snoc_last: "cell_at (fit n r @ [v]) n = v"
  by (simp add: cell_at_def length_fit nth_append)

lemma get_column_length: "get_column data c = Inr xs \<Longrightarrow> length xs = length (rows data)"
  by (auto simp: get_column_def split: option.splits)

lemma set_column_existing:
  assumes "index_of c (columns data) = Some i" and "length vals = length (rows data)"
  shows "columns (set_column data c vals) = columns data"
    and "length (rows (set_column data c vals)) = length (rows data)"
    and "n < length (rows data) \<Longrightarrow> k < length (columns data) \<Longrightarrow>
      cell_at (rows (set_column data c vals) ! n) k
        = (if k = i then vals ! n else cell_at (rows data ! n) k)"
  using assms index_of_less [OF assms(1)]
  by (simp_all add: set_column_def cell_at_fit_update)

lemma set_column_new:
  assumes "index_of c (columns data) = None" and "length vals = length (rows data)"
  shows "columns (set_column data c vals) = columns data @ [c]"
    and "length (rows (set_column data c vals)) = length (rows data)"
    and "n < length (rows data) \<Longrightarrow> k < length (columns data) \<Longrightarrow>
      cell_at (rows (set_column data c vals) ! n) k = cell_at (rows data ! n) k"
    and "n < length (rows data) \<Longrightarrow>
      cell_at (rows (set_column data c vals) ! n) (length (columns data)) = vals ! n"
  using assms
  by (simp_all add: set_column_def cell_at_fit_snoc cell_at_fit_snoc_last)

text \<open>
  Claim C8. On a table that has the two coordinate columns, the coercion of lines 31 and
  32 does not raise; it keeps the column names and the number of rows; in every row each
  coordinate cell becomes a number or missing (a number stays, a string that reads as a
  number becomes it, a string that does not becomes missing), and every other cell is
  unchanged.
\<close>

theorem coerce_coordinates_keeps_rows:
  assumes lon: "index_of ''lon'' (columns data) = Some i"
    and lat: "index_of ''lat'' (columns data) = Some j"
  shows "\<exists>out. coerce_coordinates str_to_float data = Inr out
    \<and> columns out = columns data
    \<and> length (rows out) = length (rows data)
    \<and> (\<forall>n < length (rows data). \<forall>k < length (columns data).
          cell_at (rows out ! n) k =
            (if k = i \<or> k = j then coerce str_to_float (cell_at (rows data ! n) k)
             else cell_at (rows data ! n) k))
    \<and> (\<forall>s. str_to_float s = None \<longrightarrow> coerce str_to_float (Str s) = NaN)
    \<and> (\<forall>s v. str_to_float s = Some v \<longrightarrow> coerce str_to_float (Str s) = Num v)"
proof -
  define lons where "lons = map (\<lambda>r. cell_at r i) (rows data)"
  define data1 where "data1 = set_column data ''lon'' (to_numeric str_to_float lons)"
  define lats where "lats = map (\<lambda>r. cell_at r j) (rows data1)"
  define out where "out = set_column data1 ''lat'' (to_numeric str_to_float lats)"
  have g1: "get_column data ''lon'' = Inr lons"
    using lon by (simp add: get_column_def lons_def)
  have l1: "length (to_numeric str_to_float lons) = length (rows data)"
    by (simp add: to_numeric_def lons_def)
  note s1 = set_column_existing [OF lon l1, folded data1_def]
  have lat1: "index_of ''lat'' (columns data1) = Some j"
    using lat s1(1) by simp
  have g2: "get_column data1 ''lat'' = Inr lats"
    using lat1 by (simp add: get_column_def lats_def)
  have l2: "length (to_numeric str_to_float lats) = length (rows data1)"
    by (simp add: to_numeric_def lats_def)
  note s2 = set_column_existing [OF lat1 l2, folded out_def]
  have ij: "i \<noteq> j"
    using index_of_inj [OF lon] lat by auto
  have res: "coerce_coordinates str_to_float data = Inr out"
    using g1 g2 by (simp add: coerce_coordinates_def data1_def [symmetric] out_def)
  have cells: "cell_at (rows out ! n) k =
      (if k = i \<or> k = j then coerce str_to_float (cell_at (rows data ! n) k)
       else cell_at (rows data ! n) k)"
    if n: "n < length (rows data)" and k: "k < length (columns data)" for n k
  proof -
    have a: "cell_at (rows data1 ! n) k =
        (if k = i then coerce str_to_float (cell_at (rows data ! n) i) else cell_at (rows data ! n) k)"
      using s1(3) [OF n k] n by (simp add: to_numeric_def lons_def)
    have n1: "n < length (rows data1)" using n s1(2) by simp
    have k1: "k < length (columns data1)" using k s1(1) by simp
    have j1: "j < length (columns data)" using index_of_less [OF lat] .
    have aj: "cell_at (rows data1 ! n) j = cell_at (rows data ! n) j"
      using s1(3) [OF n j1] ij by simp
    have b: "cell_at (rows out ! n) k =
        (if k = j then coerce str_to_float (cell_at (rows data1 ! n) j) else cell_at (rows data1 ! n) k)"
      using s2(3) [OF n1 k1] n1 by (simp add: to_numeric_def lats_def)
    show ?thesis using a b aj ij by auto
  qed
  have "columns out = columns data" using s1(1) s2(1) by simp
  moreover have "length (rows out) = length (rows data)" using s1(2) s2(2) by simp
  ultimately show ?thesis using res cells by (auto simp: coerce_def)
qed

theorem coerce_coordinates_keeps_rows_witness:
  "index_of ''lon'' (columns \<lparr>columns = [''lat'', ''lon'', ''City''],
       rows = [[Str ''north'', Num 2, Str ''Lima''], [Num 1, Str ''2x'', NaN]]\<rparr>) = Some 1
   \<and> index_of ''lat'' (columns \<lparr>columns = [''lat'', ''lon'', ''City''],
       rows = [[Str ''north'', Num 2, Str ''Lima''], [Num 1, Str ''2x'', NaN]]\<rparr>) = Some 0
   \<and> coerce_coordinates no_float \<lparr>columns = [''lat'', ''lon'', ''City''],
       rows = [[Str ''north'', Num 2, Str ''Lima''], [Num 1, Str ''2x'', NaN]]\<rparr>
     = Inr \<lparr>columns = [''lat'', ''lon'', ''City''],
       rows = [[NaN, Num 2, Str ''Lima''], [Num 1, NaN, NaN]]\<rparr>"
proof -
  let ?d = "\<lparr>columns = [''lat'', ''lon'', ''City''],
       rows = [[Str ''north'', Num 2, Str ''Lima''], [Num 1, Str ''2x'', NaN]]\<rparr>"
  have i: "index_of ''lon'' (columns ?d) = Some 1" by simp
  have j: "index_of ''lat'' (columns ?d) = Some 0" by simp
  from coerce_coordinates_keeps_rows [OF i j, of no_float]
  obtain out where o: "coerce_coordinates no_float ?d = Inr out"
    and c: "columns out = columns ?d" and l: "length (rows out) = length (rows ?d)"
    by blast
  have e: "coerce_coordinates no_float ?d
     = Inr \<lparr>columns = [''lat'', ''lon'', ''City''],
       rows = [[NaN, Num 2, Str ''Lima''], [Num 1, NaN, NaN]]\<rparr>"
    by code_simp
  from o c l e i j show ?thesis by simp
qed

section \<open>Properties of the rankings\<close>

subsection \<open>The sort\<close>

lemma sort_by_Nil: "sort_by le [] = []"
  by (simp add: sort_by_def)

lemma sort_by_Cons: "sort_by le (x # xs) = insert_by le x (sort_by le xs)"
  by (simp add: sort_by_def)

lemma set_insert_by: "set (insert_by le x xs) = insert x (set xs)"
  by (induction xs) auto

lemma set_sort_by: "set (sort_by le xs) = set xs"
  by (induction xs) (simp_all add: sort_by_Nil sort_by_Cons set_insert_by)

lemma length_insert_by: "length (insert_by le x xs) = Suc (length xs)"
  by (induction xs) auto

lemma length_sort_by: "length (sort_by le xs) = length xs"
  by (induction xs) (simp_all add: sort_by_Nil sort_by_Cons length_insert_by)

lemma distinct_insert_by: "distinct (insert_by le x xs) \<longleftrightarrow> x \<notin> set xs \<and> distinct xs"
  by (induction xs) (auto simp: set_insert_by)

lemma distinct_sort_by: "distinct (sort_by le xs) \<longleftrightarrow> distinct xs"
  by (induction xs) (simp_all add: sort_by_Nil sort_by_Cons distinct_insert_by set_sort_by)

lemma distinct_map_insert_by:
  "distinct (map f (insert_by le x xs)) \<longleftrightarrow> f x \<notin> f ` set xs \<and> distinct (map f xs)"
  by (induction xs) (auto simp: set_insert_by)

lemma distinct_map_sort_by: "distinct (map f (sort_by le xs)) \<longleftrightarrow> distinct (map f xs)"
  by (induction xs)
    (simp_all add: sort_by_Nil sort_by_Cons distinct_map_insert_by set_sort_by)

text \<open>Sorting a sorted list changes nothing.\<close>

lemma insert_by_sorted: "sorted_wrt le (x # xs) \<Longrightarrow> insert_by le x xs = x # xs"
  by (cases xs) auto

lemma sort_by_sorted: "sorted_wrt le xs \<Longrightarrow> sort_by le xs = xs"
  by (induction xs) (simp_all add: sort_by_Nil sort_by_Cons insert_by_sorted)

text \<open>
  The sort by descending count is stable: where the list was in an order \<open>Q\<close>, the
  sorted list is ordered by the count first and by \<open>Q\<close> among equal counts.
\<close>

lemma insert_by_count_then:
  assumes "sorted_wrt (count_then Q) xs" and "\<forall>y \<in> set xs. Q (fst x) (fst y)"
  shows "sorted_wrt (count_then Q) (insert_by by_count_desc x xs)"
  using assms
proof (induction xs)
  case Nil
  then show ?case by simp
next
  case (Cons y ys)
  show ?case
  proof (cases "by_count_desc x y")
    case True
    have "count_then Q x z" if "z \<in> set (y # ys)" for z
    proof -
      have "snd z \<le> snd y"
        using that Cons.prems(1) by (auto simp: count_then_def)
      with True have "snd z \<le> snd x" by (simp add: by_count_desc_def)
      with Cons.prems(2) that show ?thesis by (auto simp: count_then_def)
    qed
    with True Cons.prems(1) show ?thesis by simp
  next
    case False
    then have "count_then Q y x" by (simp add: by_count_desc_def count_then_def)
    with False Cons show ?thesis by (auto simp: set_insert_by)
  qed
qed

lemma sort_by_count_then:
  assumes "sorted_wrt (\<lambda>a b. Q (fst a) (fst b)) xs"
  shows "sorted_wrt (count_then Q) (sort_by by_count_desc xs)"
  using assms
  by (induction xs)
    (simp_all add: sort_by_Nil sort_by_Cons insert_by_count_then set_sort_by)

lemma count_then_desc: "count_then Q a b \<Longrightarrow> by_count_desc a b"
  by (auto simp: count_then_def by_count_desc_def)

lemma sorted_by_count_desc_sort_by: "sorted_wrt by_count_desc (sort_by by_count_desc xs)"
proof -
  have "sorted_wrt (count_then (\<lambda>a b. True)) (sort_by by_count_desc xs)"
  proof (induction xs)
    case Nil
    then show ?case by (simp add: sort_by_Nil)
  next
    case (Cons x xs)
    then show ?case by (simp add: sort_by_Cons insert_by_count_then)
  qed
  then show ?thesis
    by (rule sorted_wrt_mono_rel [rotated]) (simp add: count_then_desc)
qed

text \<open>Selection of the first maximum, against the insertion sort.\<close>

lemma first_max_cases:
  "first_max m (x # xs) = (if snd m < snd (first_max x xs) then first_max x xs else m)"
proof (induction xs arbitrary: m x)
  case Nil
  then show ?case by simp
next
  case (Cons y ys)
  show ?case
    using Cons [of m y] Cons [of x y] Cons [of "if snd m < snd x then x else m" y]
    by (simp split: if_splits)
qed

lemma first_max_in: "first_max m xs \<in> set (m # xs)"
  by (induction xs arbitrary: m) (auto split: if_splits)

lemma sort_by_first_max:
  "sort_by by_count_desc (x # xs) =
     first_max x xs # sort_by by_count_desc (remove1 (first_max x xs) (x # xs))"
proof (induction xs arbitrary: x)
  case Nil
  then show ?case by (simp add: sort_by_Nil sort_by_Cons)
next
  case (Cons y ys)
  let ?m = "first_max y ys"
  have ih: "sort_by by_count_desc (y # ys) = ?m # sort_by by_count_desc (remove1 ?m (y # ys))"
    by (rule Cons.IH)
  show ?case
  proof (cases "snd x < snd ?m")
    case True
    then have m: "first_max x (y # ys) = ?m" using first_max_cases [of x y ys] by simp
    from True have ne: "x \<noteq> ?m" by auto
    have "sort_by by_count_desc (x # y # ys) = insert_by by_count_desc x (sort_by by_count_desc (y # ys))"
      by (simp add: sort_by_Cons)
    also have "\<dots> = ?m # insert_by by_count_desc x (sort_by by_count_desc (remove1 ?m (y # ys)))"
      using True by (simp add: ih by_count_desc_def)
    also have "\<dots> = ?m # sort_by by_count_desc (remove1 ?m (x # y # ys))"
      using ne by (simp add: sort_by_Cons)
    finally show ?thesis using m by simp
  next
    case False
    then have m: "first_max x (y # ys) = x" using first_max_cases [of x y ys] by simp
    have "sort_by by_count_desc (x # y # ys) = insert_by by_count_desc x (sort_by by_count_desc (y # ys))"
      by (simp add: sort_by_Cons)
    also have "\<dots> = x # sort_by by_count_desc (y # ys)"
      using False by (simp add: ih by_count_desc_def)
    finally show ?thesis using m by simp
  qed
qed

lemma nlargest_take_sort_by: "nlargest n xs = take n (sort_by by_count_desc xs)"
proof (induction n xs rule: nlargest.induct)
  case (1 xs)
  then show ?case by simp
next
  case (2 n)
  then show ?case by (simp add: sort_by_Nil)
next
  case (3 n x xs)
  have "nlargest (Suc n) (x # xs) =
      first_max x xs # nlargest n (remove1 (first_max x xs) (x # xs))"
    by (simp add: Let_def)
  also have "\<dots> = first_max x xs # take n (sort_by by_count_desc (remove1 (first_max x xs) (x # xs)))"
    using 3 by simp
  also have "\<dots> = take (Suc n) (sort_by by_count_desc (x # xs))"
    by (simp only: sort_by_first_max [of x xs] take_Suc_Cons)
  finally show ?case .
qed


subsection \<open>Counting values\<close>

lemma unique_Nil: "unique [] = []"
  by (simp add: unique_def)

lemma remdups_snoc: "remdups (ys @ [x]) = filter (\<lambda>y. y \<noteq> x) (remdups ys) @ [x]"
  by (induction ys) auto

lemma unique_Cons: "unique (x # xs) = x # filter (\<lambda>y. y \<noteq> x) (unique xs)"
  by (simp add: unique_def remdups_snoc rev_filter)

lemma set_unique: "set (unique xs) = set xs"
  by (simp add: unique_def)

lemma distinct_unique: "distinct (unique xs)"
  by (simp add: unique_def)

lemma length_unique: "length (unique xs) = card (set xs)"
  using distinct_card [OF distinct_unique, of xs] by (simp add: set_unique)

lemma first_seen_Cons:
  "first_seen (x # xs) y = (if y = x then 0 else Suc (first_seen xs y))"
  by (auto simp: first_seen_def)

lemma unique_filter_first_seen:
  "sorted_wrt (\<lambda>a b. first_seen xs a < first_seen xs b) (unique (filter P xs))"
proof (induction xs)
  case Nil
  then show ?case by (simp add: unique_Nil)
next
  case (Cons x xs)
  let ?u = "unique (filter P xs)"
  have mono: "sorted_wrt (\<lambda>a b. first_seen (x # xs) a < first_seen (x # xs) b) ys"
    if "sorted_wrt (\<lambda>a b. first_seen xs a < first_seen xs b) ys" and "x \<notin> set ys" for ys
    using that(1)
    by (rule sorted_wrt_mono_rel [rotated]) (use that(2) in \<open>auto simp: first_seen_Cons\<close>)
  show ?case
  proof (cases "P x")
    case True
    have "sorted_wrt (\<lambda>a b. first_seen xs a < first_seen xs b) (filter (\<lambda>y. y \<noteq> x) ?u)"
      using Cons.IH by (rule sorted_wrt_filter)
    then have "sorted_wrt (\<lambda>a b. first_seen (x # xs) a < first_seen (x # xs) b)
        (filter (\<lambda>y. y \<noteq> x) ?u)"
      by (rule mono) simp
    with True show ?thesis
      by (auto simp: unique_Cons first_seen_Cons)
  next
    case False
    then have "x \<notin> set ?u" by (simp add: set_unique)
    with Cons.IH have "sorted_wrt (\<lambda>a b. first_seen (x # xs) a < first_seen (x # xs) b) ?u"
      by (rule mono)
    with False show ?thesis by simp
  qed
qed

lemma ranks_before_count_then:
  "ranks_before xs = count_then (\<lambda>a b. first_seen xs a < first_seen xs b)"
  by (intro ext) (simp add: ranks_before_def count_then_def)

lemma count_list_dropna: "k \<noteq> NaN \<Longrightarrow> count_list (dropna xs) k = count_list xs k"
  by (induction xs) (auto simp: dropna_def)

lemma set_dropna: "set (dropna xs) = set xs - {NaN}"
  by (auto simp: dropna_def)

lemma value_counts_entries:
  "set (value_counts xs) = (\<lambda>k. (k, count_list xs k)) ` (set xs - {NaN})"
proof -
  have "set (value_counts xs) = (\<lambda>k. (k, count_list (dropna xs) k)) ` set (dropna xs)"
    by (simp add: value_counts_def Let_def set_sort_by set_unique)
  also have "\<dots> = (\<lambda>k. (k, count_list xs k)) ` (set xs - {NaN})"
    by (auto simp: set_dropna count_list_dropna)
  finally show ?thesis .
qed

lemma distinct_value_counts: "distinct (map fst (value_counts xs))"
  by (simp add: value_counts_def Let_def distinct_map_sort_by comp_def distinct_unique)

lemma length_value_counts: "length (value_counts xs) = card (set xs - {NaN})"
  by (simp add: value_counts_def Let_def length_sort_by length_unique set_dropna)

lemma value_counts_ranked: "sorted_wrt (ranks_before xs) (value_counts xs)"
proof -
  have "sorted_wrt (\<lambda>a b. first_seen xs a < first_seen xs b) (unique (dropna xs))"
    unfolding dropna_def by (rule unique_filter_first_seen)
  then have "sorted_wrt (\<lambda>a b. first_seen xs (fst a) < first_seen xs (fst b))
      (map (\<lambda>k. (k, count_list (dropna xs) k)) (unique (dropna xs)))"
    by (simp add: sorted_wrt_map)
  then show ?thesis
    unfolding ranks_before_count_then value_counts_def Let_def
    by (rule sort_by_count_then)
qed

lemma sort_by_value_counts: "sort_by by_count_desc (value_counts xs) = value_counts xs"
proof -
  have "sorted_wrt by_count_desc (value_counts xs)"
    by (simp add: value_counts_def Let_def sorted_by_count_desc_sort_by)
  then show ?thesis by (rule sort_by_sorted)
qed

lemma top_ranking_take_value_counts: "top_ranking n xs (take n (value_counts xs))"
proof -
  let ?vc = "value_counts xs"
  have sub: "set (take n ?vc) \<subseteq> set ?vc" by (rule set_take_subset)
  have 1: "fst a \<noteq> NaN \<and> fst a \<in> set xs \<and> snd a = count_list xs (fst a)"
    if "a \<in> set (take n ?vc)" for a
    using that sub value_counts_entries [of xs] by auto
  have 2: "distinct (map fst (take n ?vc))"
    using distinct_value_counts [of xs] by (simp add: take_map [symmetric] distinct_take)
  have srt: "sorted_wrt (ranks_before xs) (take n ?vc @ drop n ?vc)"
    using value_counts_ranked [of xs] by simp
  then have 3: "sorted_wrt (ranks_before xs) (take n ?vc)"
    unfolding sorted_wrt_append by blast
  have 4: "length (take n ?vc) = min n (card (set xs - {NaN}))"
    by (simp add: length_value_counts min.commute)
  have 5: "ranks_before xs a (c, count_list xs c)"
    if c: "c \<in> set xs - {NaN}" and out: "c \<notin> fst ` set (take n ?vc)"
      and a: "a \<in> set (take n ?vc)" for c a
  proof -
    have "(c, count_list xs c) \<in> set ?vc"
      using c value_counts_entries [of xs] by auto
    then have "(c, count_list xs c) \<in> set (take n ?vc) \<union> set (drop n ?vc)"
      by (metis append_take_drop_id set_append)
    with out have "(c, count_list xs c) \<in> set (drop n ?vc)" by force
    with srt a show ?thesis unfolding sorted_wrt_append by blast
  qed
  show ?thesis
    unfolding top_ranking_def using 1 2 3 4 5 by blast
qed

text \<open>
  Claim C4. On a table with a \<^verbatim>\<open>City\<close> column, both rankings of the Top Cities view
  (the chart of line 150 and the table of lines 168 to 171) are top-10 rankings of the
  cities: each entry is a city with the number of its rows, the entries are in descending
  order of that number, cities with the same number stand in the order in which they are
  first seen in the column, there are ten entries (or all cities when fewer), and every
  city left out ranks after all entries.
\<close>

theorem top_cities_ranking:
  assumes "get_column fd ''City'' = Inr city"
  shows "\<exists>chart tab. city_counts fd = Inr chart \<and> top_cities fd = Inr tab
    \<and> top_ranking 10 city chart \<and> top_ranking 10 city tab"
  using assms top_ranking_take_value_counts [of 10 city]
  by (simp add: city_counts_def top_cities_def nlargest_take_sort_by sort_by_value_counts)

theorem top_cities_ranking_witness:
  "get_column \<lparr>columns = [''City''],
       rows = map (\<lambda>c. [Str c]) [''B'', ''A'', ''B'', ''C'', ''A'', ''B'', ''A'', ''C'',
                                   ''A'', ''B'', ''C'', ''B'', ''A'']\<rparr> ''City''
     = Inr (map Str [''B'', ''A'', ''B'', ''C'', ''A'', ''B'', ''A'', ''C'',
                     ''A'', ''B'', ''C'', ''B'', ''A''])
   \<and> city_counts \<lparr>columns = [''City''],
       rows = map (\<lambda>c. [Str c]) [''B'', ''A'', ''B'', ''C'', ''A'', ''B'', ''A'', ''C'',
                                   ''A'', ''B'', ''C'', ''B'', ''A'']\<rparr>
     = Inr [(Str ''B'', 5), (Str ''A'', 5), (Str ''C'', 3)]
   \<and> top_cities \<lparr>columns = [''City''],
       rows = map (\<lambda>c. [Str c]) [''B'', ''A'', ''B'', ''C'', ''A'', ''B'', ''A'', ''C'',
                                   ''A'', ''B'', ''C'', ''B'', ''A'']\<rparr>
     = Inr [(Str ''B'', 5), (Str ''A'', 5), (Str ''C'', 3)]
   \<and> top_ranking 10 (map Str [''B'', ''A'', ''B'', ''C'', ''A'', ''B'', ''A'', ''C'',
                                ''A'', ''B'', ''C'', ''B'', ''A''])
         [(Str ''B'', 5), (Str ''A'', 5), (Str ''C'', 3)]"
proof -
  let ?fd = "\<lparr>columns = [''City''],
       rows = map (\<lambda>c. [Str c]) [''B'', ''A'', ''B'', ''C'', ''A'', ''B'', ''A'', ''C'',
                                   ''A'', ''B'', ''C'', ''B'', ''A'']\<rparr>"
  let ?city = "map Str [''B'', ''A'', ''B'', ''C'', ''A'', ''B'', ''A'', ''C'',
                        ''A'', ''B'', ''C'', ''B'', ''A'']"
  have g: "get_column ?fd ''City'' = Inr ?city"
    by (simp add: get_column_def cell_at_def)
  from top_cities_ranking [OF g]
  obtain chart tab where c: "city_counts ?fd = Inr chart" and t: "top_cities ?fd = Inr tab"
    and rc: "top_ranking 10 ?city chart" and rt: "top_ranking 10 ?city tab"
    by blast
  have ec: "city_counts ?fd = Inr [(Str ''B'', 5), (Str ''A'', 5), (Str ''C'', 3)]"
    by code_simp
  have et: "top_cities ?fd = Inr [(Str ''B'', 5), (Str ''A'', 5), (Str ''C'', 3)]"
    by code_simp
  from c ec have "chart = [(Str ''B'', 5), (Str ''A'', 5), (Str ''C'', 3)]" by simp
  with rc have "top_ranking 10 ?city [(Str ''B'', 5), (Str ''A'', 5), (Str ''C'', 3)]" by simp
  with g ec et show ?thesis by (intro conjI)
qed

text \<open>
  Claim C10. On a table with a \<^verbatim>\<open>City\<close> column, the two computations of the Top Cities
  view, the ten largest of the counts (line 150) and the first ten rows of the counts
  sorted in descending order (lines 168 to 171), give the same cities with the same
  counts, in the same order.
\<close>

theorem top_cities_agree:
  assumes "get_column fd ''City'' = Inr city"
  shows "\<exists>top. city_counts fd = Inr top \<and> top_cities fd = Inr top"
  using assms
  by (simp add: city_counts_def top_cities_def nlargest_take_sort_by)

theorem top_cities_agree_witness:
  "get_column \<lparr>columns = [''Name'', ''City''],
       rows = map (\<lambda>c. [NaN, Str c]) [''a'', ''b'', ''c'', ''d'', ''e'', ''f'', ''g'', ''h'',
                ''i'', ''j'', ''k'', ''l'', ''k'', ''c'', ''k'', ''e'']\<rparr> ''City''
     = Inr (map Str [''a'', ''b'', ''c'', ''d'', ''e'', ''f'', ''g'', ''h'',
                ''i'', ''j'', ''k'', ''l'', ''k'', ''c'', ''k'', ''e''])
   \<and> city_counts \<lparr>columns = [''Name'', ''City''],
       rows = map (\<lambda>c. [NaN, Str c]) [''a'', ''b'', ''c'', ''d'', ''e'', ''f'', ''g'', ''h'',
                ''i'', ''j'', ''k'', ''l'', ''k'', ''c'', ''k'', ''e'']\<rparr>
     = Inr [(Str ''k'', 3), (Str ''c'', 2), (Str ''e'', 2), (Str ''a'', 1), (Str ''b'', 1),
            (Str ''d'', 1), (Str ''f'', 1), (Str ''g'', 1), (Str ''h'', 1), (Str ''i'', 1)]
   \<and> top_cities \<lparr>columns = [''Name'', ''City''],
       rows = map (\<lambda>c. [NaN, Str c]) [''a'', ''b'', ''c'', ''d'', ''e'', ''f'', ''g'', ''h'',
                ''i'', ''j'', ''k'', ''l'', ''k'', ''c'', ''k'', ''e'']\<rparr>
     = Inr [(Str ''k'', 3), (Str ''c'', 2), (Str ''e'', 2), (Str ''a'', 1), (Str ''b'', 1),
            (Str ''d'', 1), (Str ''f'', 1), (Str ''g'', 1), (Str ''h'', 1), (Str ''i'', 1)]"
proof -
  let ?fd = "\<lparr>columns = [''Name'', ''City''],
       rows = map (\<lambda>c. [NaN, Str c]) [''a'', ''b'', ''c'', ''d'', ''e'', ''f'', ''g'', ''h'',
                ''i'', ''j'', ''k'', ''l'', ''k'', ''c'', ''k'', ''e'']\<rparr>"
  have g: "get_column ?fd ''City''
     = Inr (map Str [''a'', ''b'', ''c'', ''d'', ''e'', ''f'', ''g'', ''h'',
                ''i'', ''j'', ''k'', ''l'', ''k'', ''c'', ''k'', ''e''])"
    by (simp add: get_column_def cell_at_def)
  from top_cities_agree [OF g]
  obtain top where c: "city_counts ?fd = Inr top" and t: "top_cities ?fd = Inr top"
    by blast
  have ec: "city_counts ?fd
     = Inr [(Str ''k'', 3), (Str ''c'', 2), (Str ''e'', 2), (Str ''a'', 1), (Str ''b'', 1),
            (Str ''d'', 1), (Str ''f'', 1), (Str ''g'', 1), (Str ''h'', 1), (Str ''i'', 1)]"
    by code_simp
  from c ec have "top = [(Str ''k'', 3), (Str ''c'', 2), (Str ''e'', 2), (Str ''a'', 1),
            (Str ''b'', 1), (Str ''d'', 1), (Str ''f'', 1), (Str ''g'', 1), (Str ''h'', 1),
            (Str ''i'', 1)]"
    by simp
  with t have et: "top_cities ?fd
     = Inr [(Str ''k'', 3), (Str ''c'', 2), (Str ''e'', 2), (Str ''a'', 1), (Str ''b'', 1),
            (Str ''d'', 1), (Str ''f'', 1), (Str ''g'', 1), (Str ''h'', 1), (Str ''i'', 1)]"
    by simp
  from g ec et show ?thesis by (intro conjI)
qed

section \<open>Properties of the aggregations\<close>

subsection \<open>Totals of cross tables\<close>

lemma sum_list_count_pairs:
  assumes "distinct as" and "distinct bs" and "set ps \<subseteq> set as \<times> set bs"
  shows "sum_list (map (\<lambda>a. sum_list (map (\<lambda>b. count_list ps (a, b)) bs)) as) = length ps"
proof -
  have "sum_list (map (\<lambda>a. sum_list (map (\<lambda>b. count_list ps (a, b)) bs)) as)
      = (\<Sum>a \<in> set as. \<Sum>b \<in> set bs. count_list ps (a, b))"
    using assms(1,2) by (simp add: sum_list_distinct_conv_sum_set)
  also have "\<dots> = (\<Sum>p \<in> set as \<times> set bs. count_list ps p)"
    by (simp add: sum.cartesian_product)
  also have "\<dots> = length ps"
    using assms(3) by (simp add: sum_count_set)
  finally show ?thesis .
qed

lemma total_cross_counts:
  assumes "set counted \<subseteq> set groups"
  shows "cell_total (cross_counts groups counted) = length counted"
proof -
  let ?as = "sort_by cell_le (unique (map fst groups))"
  let ?bs = "sort_by cell_le (unique (map snd groups))"
  have "set counted \<subseteq> set ?as \<times> set ?bs"
    using assms by (force simp: set_sort_by set_unique)
  moreover have "distinct ?as" "distinct ?bs"
    by (simp_all add: distinct_sort_by distinct_unique)
  ultimately have "sum_list (map (\<lambda>a. sum_list (map (\<lambda>b. count_list counted (a, b)) ?bs)) ?as)
      = length counted"
    by (intro sum_list_count_pairs)
  then show ?thesis
    by (simp add: cell_total_def cross_counts_def Let_def comp_def)
qed

lemma total_pivot_table:
  assumes "pivot_table data vals idx cols = Inr pv"
    and "index_of vals (columns data) = Some v"
    and "index_of idx (columns data) = Some i"
    and "index_of cols (columns data) = Some c"
  shows "cell_total pv = length (filter (\<lambda>r. cell_at r i \<noteq> NaN \<and> cell_at r c \<noteq> NaN
            \<and> cell_at r v \<noteq> NaN) (rows data))"
proof -
  let ?g = "grouped i c (rows data)"
  have pv: "pv = cross_counts (keys_of i c ?g) (keys_of i c (filter (\<lambda>r. cell_at r v \<noteq> NaN) ?g))"
    using assms by (simp add: pivot_table_def Let_def)
  have "set (keys_of i c (filter (\<lambda>r. cell_at r v \<noteq> NaN) ?g)) \<subseteq> set (keys_of i c ?g)"
    by (auto simp: keys_of_def)
  then have "cell_total pv = length (keys_of i c (filter (\<lambda>r. cell_at r v \<noteq> NaN) ?g))"
    unfolding pv by (rule total_cross_counts)
  also have "\<dots> = length (filter (\<lambda>r. cell_at r i \<noteq> NaN \<and> cell_at r c \<noteq> NaN
            \<and> cell_at r v \<noteq> NaN) (rows data))"
    by (simp add: keys_of_def grouped_def conj_commute conj_left_commute)
  finally show ?thesis .
qed

lemma total_groupby_size_unstack:
  assumes "groupby_size_unstack data a b = Inr t"
    and "index_of a (columns data) = Some i"
    and "index_of b (columns data) = Some c"
  shows "cell_total t = length (filter (\<lambda>r. cell_at r i \<noteq> NaN \<and> cell_at r c \<noteq> NaN) (rows data))"
proof -
  have "t = cross_counts (keys_of i c (grouped i c (rows data))) (keys_of i c (grouped i c (rows data)))"
    using assms by (simp add: groupby_size_unstack_def Let_def)
  then have "cell_total t = length (keys_of i c (grouped i c (rows data)))"
    by (simp add: total_cross_counts)
  then show ?thesis by (simp add: keys_of_def grouped_def)
qed

subsection \<open>Columns set by the script\<close>

lemma index_of_snoc_other: "c \<noteq> x \<Longrightarrow> index_of c (xs @ [x]) = index_of c xs"
  by (induction xs) auto

lemma index_of_snoc_new: "index_of c xs = None \<Longrightarrow> index_of c (xs @ [c]) = Some (length xs)"
  by (induction xs) (auto split: if_splits)

lemma set_column_length:
  "length vals = length (rows data) \<Longrightarrow>
     length (rows (set_column data c vals)) = length (rows data)"
  by (simp add: set_column_def Let_def split: option.splits)

lemma set_column_index_other:
  "c' \<noteq> c \<Longrightarrow> index_of c' (columns (set_column data c vals)) = index_of c' (columns data)"
  by (simp add: set_column_def Let_def index_of_snoc_other split: option.splits)

lemma set_column_cell_other:
  assumes "index_of c' (columns data) = Some k" and "c' \<noteq> c"
    and "length vals = length (rows data)" and "n < length (rows data)"
  shows "cell_at (rows (set_column data c vals) ! n) k = cell_at (rows data ! n) k"
proof (cases "index_of c (columns data)")
  case None
  from set_column_new(3) [OF None assms(3,4) index_of_less [OF assms(1)]]
  show ?thesis .
next
  case (Some i)
  have "k \<noteq> i" using index_of_inj [OF assms(1)] Some assms(2) by auto
  with set_column_existing(3) [OF Some assms(3,4) index_of_less [OF assms(1)]]
  show ?thesis by simp
qed

lemma set_column_cell_self:
  assumes "length vals = length (rows data)"
  shows "\<exists>k. index_of c (columns (set_column data c vals)) = Some k
    \<and> (\<forall>n < length (rows data). cell_at (rows (set_column data c vals) ! n) k = vals ! n)"
proof (cases "index_of c (columns data)")
  case None
  from set_column_new(1,4) [OF None assms] index_of_snoc_new [OF None]
  show ?thesis by simp
next
  case (Some i)
  from set_column_existing(1,3) [OF Some assms] index_of_less [OF Some] Some
  show ?thesis by simp
qed

lemma series_apply_nth:
  "series_apply f xs = Inr ys \<Longrightarrow>
     length ys = length xs \<and> (\<forall>n < length xs. f (xs ! n) = Inr (ys ! n))"
proof (induction xs arbitrary: ys)
  case Nil
  then show ?case by simp
next
  case (Cons x xs)
  from Cons.prems obtain y ys' where y: "f x = Inr y" and r: "series_apply f xs = Inr ys'"
    and ys: "ys = y # ys'"
    by (auto split: sum.splits)
  from Cons.IH [OF r] y ys show ?case
    by (auto simp: nth_Cons split: nat.splits)
qed

lemma length_filter_nth_cong:
  "length xs = length ys \<Longrightarrow> (\<And>n. n < length xs \<Longrightarrow> P (xs ! n) = Q (ys ! n)) \<Longrightarrow>
     length (filter P xs) = length (filter Q ys)"
proof (induction xs ys rule: list_induct2)
  case Nil
  then show ?case by simp
next
  case (Cons x xs y ys)
  have "P x = Q y" using Cons.prems [of 0] by simp
  moreover have "length (filter P xs) = length (filter Q ys)"
    using Cons.prems [of "Suc n" for n] by (intro Cons.IH) simp
  ultimately show ?case by simp
qed

lemma has_value_index:
  "index_of c (columns data) = Some i \<Longrightarrow> has_value data c r = (cell_at r i \<noteq> NaN)"
  by (simp add: has_value_def)

lemma density_category_Inr_Str: "density_category x = Inr y \<Longrightarrow> x \<noteq> NaN"
  by (auto simp: density_category_def)

lemma add_density_category_store_number:
  assumes "add_density_category data = Inr df" and "r \<in> set (rows df)"
  shows "has_value df ''StoreNumber'' r"
proof -
  from assms(1) obtain i cats where i: "index_of ''StoreNumber'' (columns data) = Some i"
    and cats: "series_apply density_category (map (\<lambda>r. cell_at r i) (rows data)) = Inr cats"
    and df: "df = set_column data ''Density Category'' (map Str cats)"
    by (auto simp: add_density_category_def get_column_def split: option.splits sum.splits)
  from series_apply_nth [OF cats]
  have len: "length (map Str cats) = length (rows data)"
    and ok: "\<And>n. n < length (rows data) \<Longrightarrow> cell_at (rows data ! n) i \<noteq> NaN"
    by (auto dest: density_category_Inr_Str)
  have ne: "''StoreNumber'' \<noteq> ''Density Category''" by simp
  have i': "index_of ''StoreNumber'' (columns df) = Some i"
    using i by (simp add: df set_column_index_other)
  from assms(2) obtain n where n: "n < length (rows data)" and r: "r = rows df ! n"
    unfolding df by (metis in_set_conv_nth len set_column_length)
  have "cell_at r i = cell_at (rows data ! n) i"
    unfolding r df by (rule set_column_cell_other [OF i ne len n])
  with ok [OF n] show ?thesis by (simp add: has_value_index [OF i'])
qed

lemma prepare_store_number:
  "prepare str_to_float raw = Inr df \<Longrightarrow> r \<in> set (rows df) \<Longrightarrow> has_value df ''StoreNumber'' r"
  by (auto simp: prepare_def split: sum.splits intro: add_density_category_store_number)

lemma filter_data_rows:
  "filter_data data column vals = Inr out \<Longrightarrow>
     columns out = columns data \<and> (\<exists>P. rows out = filter P (rows data))"
  by (auto simp: filter_data_def split: option.splits)

lemma select_rows_rows:
  assumes "select_rows data selected_country selected_cities = Inr fd"
  shows "columns fd = columns data \<and> (\<exists>P. rows fd = filter P (rows data))"
proof -
  from assms obtain by_country where
    a: "filter_data data ''CountryCode'' [selected_country] = Inr by_country"
    and b: "fd = by_country \<or> filter_data by_country ''City'' selected_cities = Inr fd"
    by (auto simp: select_rows_def split: sum.splits if_splits)
  from filter_data_rows [OF a] obtain P where
    c: "columns by_country = columns data" and P: "rows by_country = filter P (rows data)"
    by blast
  from b show ?thesis
  proof
    assume "fd = by_country"
    with c P show ?thesis by blast
  next
    assume "filter_data by_country ''City'' selected_cities = Inr fd"
    from filter_data_rows [OF this] obtain Q where
      "columns fd = columns by_country" and "rows fd = filter Q (rows by_country)"
      by blast
    with c P have "columns fd = columns data"
      and "rows fd = filter (\<lambda>r. P r \<and> Q r) (rows data)"
      by simp_all
    then show ?thesis by blast
  qed
qed

lemma has_value_columns: "columns a = columns b \<Longrightarrow> has_value a c r = has_value b c r"
  by (simp add: has_value_def)

lemma script_parts:
  assumes "script str_to_float strptime_year raw selected_country selected_cities = Inr v"
  shows "prepare str_to_float raw = Inr (df_starbucks v)"
    and "select_rows (df_starbucks v) selected_country selected_cities = Inr (filtered_data v)"
    and "pivot_table (filtered_data v) ''StoreNumber'' ''City'' ''OwnershipType'' = Inr (pivot v)"
    and "city_counts (filtered_data v) = Inr (city_chart v)"
    and "top_cities (filtered_data v) = Inr (city_table v)"
    and "ownership_counts (filtered_data v) = Inr (ownership_pie v)"
    and "ownership_counts (df_starbucks v) = Inr (ownership_bar v)"
    and "store_counts_by_year strptime_year (df_starbucks v) = Inr (year_counts v)"
  using assms unfolding script_def and_then_def
  by (auto split: sum.splits)

subsection \<open>Totals of the two cross tables of the script\<close>

lemma to_year_NaN: "to_year strptime_year x = Inr y \<Longrightarrow> (y \<noteq> NaN) = (x \<noteq> NaN)"
  by (auto simp: to_year_def split: cell.splits option.splits)

lemma total_store_counts_by_year:
  assumes "store_counts_by_year strptime_year data = Inr yc"
  shows "cell_total yc =
     length (filter (\<lambda>r. has_value data ''FirstSeen'' r \<and> has_value data ''OwnershipType'' r)
       (rows data))"
proof -
  from assms obtain data' where a: "add_year strptime_year data = Inr data'"
    and g: "groupby_size_unstack data' ''Year'' ''OwnershipType'' = Inr yc"
    by (auto simp: store_counts_by_year_def split: sum.splits)
  from a obtain f years where f: "index_of ''FirstSeen'' (columns data) = Some f"
    and years: "series_apply (to_year strptime_year) (map (\<lambda>r. cell_at r f) (rows data)) = Inr years"
    and data': "data' = set_column data ''Year'' years"
    by (auto simp: add_year_def get_column_def split: option.splits sum.splits)
  from series_apply_nth [OF years]
  have len: "length years = length (rows data)"
    and yr: "\<And>n. n < length (rows data) \<Longrightarrow>
      to_year strptime_year (cell_at (rows data ! n) f) = Inr (years ! n)"
    by auto
  from g obtain ky c where ky: "index_of ''Year'' (columns data') = Some ky"
    and c': "index_of ''OwnershipType'' (columns data') = Some c"
    by (auto simp: groupby_size_unstack_def split: option.splits)
  have ne: "''OwnershipType'' \<noteq> ''Year''" by simp
  have c: "index_of ''OwnershipType'' (columns data) = Some c"
    using c' by (simp add: data' set_column_index_other)
  from set_column_cell_self [OF len, of "''Year''"] ky
  have ycell: "\<And>n. n < length (rows data) \<Longrightarrow> cell_at (rows data' ! n) ky = years ! n"
    by (auto simp: data')
  have ocell: "\<And>n. n < length (rows data) \<Longrightarrow>
      cell_at (rows data' ! n) c = cell_at (rows data ! n) c"
    unfolding data' by (rule set_column_cell_other [OF c ne len])
  have len': "length (rows data') = length (rows data)"
    by (simp add: data' set_column_length len)
  have "cell_total yc =
      length (filter (\<lambda>r. cell_at r ky \<noteq> NaN \<and> cell_at r c \<noteq> NaN) (rows data'))"
    by (rule total_groupby_size_unstack [OF g ky c'])
  also have "\<dots> = length (filter (\<lambda>r. cell_at r f \<noteq> NaN \<and> cell_at r c \<noteq> NaN) (rows data))"
  proof (rule length_filter_nth_cong [OF len'])
    fix n assume "n < length (rows data')"
    then have n: "n < length (rows data)" using len' by simp
    from to_year_NaN [OF yr [OF n]] ycell [OF n] ocell [OF n]
    show "(cell_at (rows data' ! n) ky \<noteq> NaN \<and> cell_at (rows data' ! n) c \<noteq> NaN)
        = (cell_at (rows data ! n) f \<noteq> NaN \<and> cell_at (rows data ! n) c \<noteq> NaN)"
      by simp
  qed
  finally show ?thesis
    by (simp add: has_value_index [OF f] has_value_index [OF c])
qed

lemma total_pivot_of_script:
  assumes "pivot_table data ''StoreNumber'' ''City'' ''OwnershipType'' = Inr pv"
    and "\<forall>r \<in> set (rows data). has_value data ''StoreNumber'' r"
  shows "cell_total pv =
     length (filter (\<lambda>r. has_value data ''City'' r \<and> has_value data ''OwnershipType'' r)
       (rows data))"
proof -
  from assms(1) obtain v i c where v: "index_of ''StoreNumber'' (columns data) = Some v"
    and i: "index_of ''City'' (columns data) = Some i"
    and c: "index_of ''OwnershipType'' (columns data) = Some c"
    by (auto simp: pivot_table_def split: option.splits)
  have "cell_total pv = length (filter (\<lambda>r. cell_at r i \<noteq> NaN \<and> cell_at r c \<noteq> NaN
            \<and> cell_at r v \<noteq> NaN) (rows data))"
    by (rule total_pivot_table [OF assms(1) v i c])
  also have "\<dots> = length (filter (\<lambda>r. cell_at r i \<noteq> NaN \<and> cell_at r c \<noteq> NaN) (rows data))"
    using assms(2) by (intro arg_cong [where f = length] filter_cong)
      (auto simp: has_value_index [OF v])
  finally show ?thesis
    by (simp add: has_value_index [OF i] has_value_index [OF c])
qed

text \<open>
  Claim C3, as the script has it. The sum over all cells of the city by ownership-type
  pivot is the number of rows of the filtered table in which the city and the ownership
  type are both present; it is the row count of the filtered table when no row lacks
  either. The year by ownership-type counts are taken from the whole prepared table, not
  from the filtered one, and the sum over their cells is the number of its rows in which
  the first-seen time stamp and the ownership type are both present.
\<close>

theorem cross_table_totals:
  assumes "script str_to_float strptime_year raw selected_country selected_cities = Inr v"
  shows "cell_total (pivot v) =
       length (filter (\<lambda>r. has_value (filtered_data v) ''City'' r
                          \<and> has_value (filtered_data v) ''OwnershipType'' r)
                 (rows (filtered_data v)))
    \<and> ((\<forall>r \<in> set (rows (filtered_data v)).
           has_value (filtered_data v) ''City'' r \<and> has_value (filtered_data v) ''OwnershipType'' r)
         \<longrightarrow> cell_total (pivot v) = length (rows (filtered_data v)))
    \<and> store_counts_by_year strptime_year (df_starbucks v) = Inr (year_counts v)
    \<and> cell_total (year_counts v) =
       length (filter (\<lambda>r. has_value (df_starbucks v) ''FirstSeen'' r
                          \<and> has_value (df_starbucks v) ''OwnershipType'' r)
                 (rows (df_starbucks v)))"
proof -
  note p = script_parts [OF assms]
  from select_rows_rows [OF p(2)] obtain P where
    cols: "columns (filtered_data v) = columns (df_starbucks v)"
    and rws: "rows (filtered_data v) = filter P (rows (df_starbucks v))"
    by blast
  have sn: "\<forall>r \<in> set (rows (filtered_data v)). has_value (filtered_data v) ''StoreNumber'' r"
    using prepare_store_number [OF p(1)] rws has_value_columns [OF cols] by auto
  have a: "cell_total (pivot v) =
       length (filter (\<lambda>r. has_value (filtered_data v) ''City'' r
                          \<and> has_value (filtered_data v) ''OwnershipType'' r)
                 (rows (filtered_data v)))"
    by (rule total_pivot_of_script [OF p(3) sn])
  have b: "cell_total (pivot v) = length (rows (filtered_data v))"
    if "\<forall>r \<in> set (rows (filtered_data v)).
           has_value (filtered_data v) ''City'' r \<and> has_value (filtered_data v) ''OwnershipType'' r"
    unfolding a using that by (intro arg_cong [where f = length]) (simp add: filter_id_conv)
  from a b p(8) total_store_counts_by_year [OF p(8)] show ?thesis by blast
qed

theorem cross_table_totals_witness:
  "(let v = projr (script no_float stamp_year
       \<lparr>columns = [''StoreNumber'', ''Latitude'', ''Longitude'', ''CountryCode'', ''City'',
                   ''OwnershipType'', ''FirstSeen''],
        rows = [[Str ''11-2000'', Num 47, Num (-122), Str ''US'', Str ''Seattle'', Str ''CO'',
                  Str ''12/08/2013 10:41:59 PM''],
                [Str ''12-20'', Num 47, Num (-122), Str ''US'', Str ''Seattle'', Str ''LS'',
                  Str ''02/03/2017 12:00:00 AM''],
                [Str ''13-7'', Num 43, Num (-79), Str ''CA'', Str ''Toronto'', Str ''LS'', NaN]]\<rparr>
       (Str ''US'') [])
    in script no_float stamp_year
       \<lparr>columns = [''StoreNumber'', ''Latitude'', ''Longitude'', ''CountryCode'', ''City'',
                   ''OwnershipType'', ''FirstSeen''],
        rows = [[Str ''11-2000'', Num 47, Num (-122), Str ''US'', Str ''Seattle'', Str ''CO'',
                  Str ''12/08/2013 10:41:59 PM''],
                [Str ''12-20'', Num 47, Num (-122), Str ''US'', Str ''Seattle'', Str ''LS'',
                  Str ''02/03/2017 12:00:00 AM''],
                [Str ''13-7'', Num 43, Num (-79), Str ''CA'', Str ''Toronto'', Str ''LS'', NaN]]\<rparr>
       (Str ''US'') [] = Inr v
     \<and> length (rows (filtered_data v)) = 2
     \<and> pivot v = \<lparr>ct_index = [Str ''Seattle''], ct_columns = [Str ''CO'', Str ''LS''],
                   ct_cells = [[1, 1]]\<rparr>
     \<and> cell_total (pivot v) = 2
     \<and> length (rows (df_starbucks v)) = 3
     \<and> year_counts v = \<lparr>ct_index = [Num 2013, Num 2017], ct_columns = [Str ''CO'', Str ''LS''],
                         ct_cells = [[1, 0], [0, 1]]\<rparr>
     \<and> cell_total (year_counts v) = 2)"
proof -
  let ?raw = "\<lparr>columns = [''StoreNumber'', ''Latitude'', ''Longitude'', ''CountryCode'', ''City'',
                   ''OwnershipType'', ''FirstSeen''],
        rows = [[Str ''11-2000'', Num 47, Num (-122), Str ''US'', Str ''Seattle'', Str ''CO'',
                  Str ''12/08/2013 10:41:59 PM''],
                [Str ''12-20'', Num 47, Num (-122), Str ''US'', Str ''Seattle'', Str ''LS'',
                  Str ''02/03/2017 12:00:00 AM''],
                [Str ''13-7'', Num 43, Num (-79), Str ''CA'', Str ''Toronto'', Str ''LS'', NaN]]\<rparr>"
  let ?v = "projr (script no_float stamp_year ?raw (Str ''US'') [])"
  have e: "script no_float stamp_year ?raw (Str ''US'') [] = Inr ?v"
    by code_simp
  have n: "length (rows (filtered_data ?v)) = 2" "length (rows (df_starbucks ?v)) = 3"
    by code_simp+
  have pv: "pivot ?v = \<lparr>ct_index = [Str ''Seattle''], ct_columns = [Str ''CO'', Str ''LS''],
                   ct_cells = [[1, 1]]\<rparr>"
    by code_simp
  have yc: "year_counts ?v = \<lparr>ct_index = [Num 2013, Num 2017],
      ct_columns = [Str ''CO'', Str ''LS''], ct_cells = [[1, 0], [0, 1]]\<rparr>"
    by code_simp
  have present: "\<forall>r \<in> set (rows (filtered_data ?v)).
      has_value (filtered_data ?v) ''City'' r \<and> has_value (filtered_data ?v) ''OwnershipType'' r"
    by code_simp
  from cross_table_totals [OF e] present n
  have "cell_total (pivot ?v) = 2" by simp
  moreover have "cell_total (year_counts ?v) = 2"
    unfolding yc by (simp add: cell_total_def)
  ultimately show ?thesis
    unfolding Let_def using e n pv yc by (intro conjI)
qed

text \<open>
  A table on which neither total is the row count of the filtered table: the selection of
  the country \<^verbatim>\<open>US\<close> keeps two rows, one of them without a city; the pivot counts
  one row, and the year counts, taken from all three rows, count three.
\<close>

theorem cross_table_totals_counterexample:
  "(case script no_float stamp_year
       \<lparr>columns = [''StoreNumber'', ''Latitude'', ''Longitude'', ''CountryCode'', ''City'',
                   ''OwnershipType'', ''FirstSeen''],
        rows = [[Str ''11-2000'', Num 47, Num (-122), Str ''US'', Str ''Seattle'', Str ''CO'',
                  Str ''12/08/2013 10:41:59 PM''],
                [Str ''12-20'', Num 47, Num (-122), Str ''US'', NaN, Str ''LS'',
                  Str ''02/03/2017 12:00:00 AM''],
                [Str ''13-7'', Num 43, Num (-79), Str ''CA'', Str ''Toronto'', Str ''LS'',
                  Str ''02/03/2017 12:00:00 AM'']]\<rparr>
       (Str ''US'') [] of
      Inl e \<Rightarrow> False
    | Inr v \<Rightarrow> length (rows (filtered_data v)) = 2
        \<and> cell_total (pivot v) = 1 \<and> cell_total (pivot v) \<noteq> length (rows (filtered_data v))
        \<and> cell_total (year_counts v) = 3
        \<and> cell_total (year_counts v) \<noteq> length (rows (filtered_data v)))"
  by code_simp

subsection \<open>The ownership counts of the two displays\<close>

lemma count_list_map_filter_le:
  "count_list (map f (filter P rs)) k \<le> count_list (map f rs) k"
  by (induction rs) auto

lemma value_counts_sub_column:
  assumes "(k, n) \<in> set (value_counts (map f (filter P rs)))"
  shows "\<exists>m. (k, m) \<in> set (value_counts (map f rs)) \<and> n \<le> m"
proof -
  from assms have k: "k \<in> set (map f (filter P rs)) - {NaN}"
    and n: "n = count_list (map f (filter P rs)) k"
    by (auto simp: value_counts_entries)
  from k have "k \<in> set (map f rs) - {NaN}" by auto
  then have "(k, count_list (map f rs) k) \<in> set (value_counts (map f rs))"
    by (auto simp: value_counts_entries)
  with n count_list_map_filter_le [of f P rs k] show ?thesis by blast
qed

text \<open>
  Claim C6, as the script has it. The counts of the pie display are the rows per ownership
  type of the filtered table; the counts of the bar display are the rows per ownership
  type of the whole prepared table, not of the filtered one. Both are the value counts of
  the \<^verbatim>\<open>OwnershipType\<close> column of their table: the count of a type in the pie is at
  most its count in the bar, and the two displays have identical counts when the filter
  keeps every row.
\<close>

theorem ownership_counts_of_displays:
  assumes "script str_to_float strptime_year raw selected_country selected_cities = Inr v"
  shows "ownership_counts (filtered_data v) = Inr (ownership_pie v)
    \<and> ownership_counts (df_starbucks v) = Inr (ownership_bar v)
    \<and> (\<forall>k n. (k, n) \<in> set (ownership_pie v) \<longrightarrow>
          (\<exists>m. (k, m) \<in> set (ownership_bar v) \<and> n \<le> m))
    \<and> (rows (filtered_data v) = rows (df_starbucks v) \<longrightarrow> ownership_pie v = ownership_bar v)"
proof -
  note p = script_parts [OF assms]
  from select_rows_rows [OF p(2)] obtain P where
    cols: "columns (filtered_data v) = columns (df_starbucks v)"
    and rws: "rows (filtered_data v) = filter P (rows (df_starbucks v))"
    by blast
  from p(7) obtain c where c: "index_of ''OwnershipType'' (columns (df_starbucks v)) = Some c"
    and bar: "ownership_bar v = value_counts (map (\<lambda>r. cell_at r c) (rows (df_starbucks v)))"
    by (auto simp: ownership_counts_def get_column_def split: option.splits)
  from p(6) c cols
  have pie: "ownership_pie v =
      value_counts (map (\<lambda>r. cell_at r c) (filter P (rows (df_starbucks v))))"
    by (auto simp: ownership_counts_def get_column_def rws)
  have le: "\<exists>m. (k, m) \<in> set (ownership_bar v) \<and> n \<le> m"
    if "(k, n) \<in> set (ownership_pie v)" for k n
    using that unfolding pie bar by (rule value_counts_sub_column)
  have same: "ownership_pie v = ownership_bar v"
    if "rows (filtered_data v) = rows (df_starbucks v)"
    using that rws by (simp add: pie bar)
  from p(6,7) le same show ?thesis by blast
qed

theorem ownership_counts_of_displays_witness:
  "(let v = projr (script no_float stamp_year
       \<lparr>columns = [''StoreNumber'', ''Latitude'', ''Longitude'', ''CountryCode'', ''City'',
                   ''OwnershipType'', ''FirstSeen''],
        rows = [[Str ''21-1500'', Num 40, Num (-3), Str ''ES'', Str ''Madrid'', Str ''LS'',
                  Str ''12/08/2013 10:41:59 PM''],
                [Str ''22-80'', Num 41, Num 2, Str ''ES'', Str ''Barcelona'', Str ''JV'',
                  Str ''12/08/2013 10:41:59 PM''],
                [Str ''23-9'', Num 40, Num (-3), Str ''ES'', Str ''Madrid'', Str ''LS'',
                  Str ''12/08/2013 10:41:59 PM'']]\<rparr>
       (Str ''ES'') [])
    in script no_float stamp_year
       \<lparr>columns = [''StoreNumber'', ''Latitude'', ''Longitude'', ''CountryCode'', ''City'',
                   ''OwnershipType'', ''FirstSeen''],
        rows = [[Str ''21-1500'', Num 40, Num (-3), Str ''ES'', Str ''Madrid'', Str ''LS'',
                  Str ''12/08/2013 10:41:59 PM''],
                [Str ''22-80'', Num 41, Num 2, Str ''ES'', Str ''Barcelona'', Str ''JV'',
                  Str ''12/08/2013 10:41:59 PM''],
                [Str ''23-9'', Num 40, Num (-3), Str ''ES'', Str ''Madrid'', Str ''LS'',
                  Str ''12/08/2013 10:41:59 PM'']]\<rparr>
       (Str ''ES'') [] = Inr v
     \<and> rows (filtered_data v) = rows (df_starbucks v)
     \<and> ownership_pie v = [(Str ''LS'', 2), (Str ''JV'', 1)]
     \<and> ownership_bar v = [(Str ''LS'', 2), (Str ''JV'', 1)])"
proof -
  let ?raw = "\<lparr>columns = [''StoreNumber'', ''Latitude'', ''Longitude'', ''CountryCode'', ''City'',
                   ''OwnershipType'', ''FirstSeen''],
        rows = [[Str ''21-1500'', Num 40, Num (-3), Str ''ES'', Str ''Madrid'', Str ''LS'',
                  Str ''12/08/2013 10:41:59 PM''],
                [Str ''22-80'', Num 41, Num 2, Str ''ES'', Str ''Barcelona'', Str ''JV'',
                  Str ''12/08/2013 10:41:59 PM''],
                [Str ''23-9'', Num 40, Num (-3), Str ''ES'', Str ''Madrid'', Str ''LS'',
                  Str ''12/08/2013 10:41:59 PM'']]\<rparr>"
  let ?v = "projr (script no_float stamp_year ?raw (Str ''ES'') [])"
  have e: "script no_float stamp_year ?raw (Str ''ES'') [] = Inr ?v"
    by code_simp
  have r: "rows (filtered_data ?v) = rows (df_starbucks ?v)"
    by code_simp
  have pie: "ownership_pie ?v = [(Str ''LS'', 2), (Str ''JV'', 1)]"
    by code_simp
  from ownership_counts_of_displays [OF e] r
  have "ownership_pie ?v = ownership_bar ?v" by blast
  with pie have "ownership_bar ?v = [(Str ''LS'', 2), (Str ''JV'', 1)]" by simp
  with e r pie show ?thesis unfolding Let_def by (intro conjI)
qed

text \<open>
  A table on which the two displays differ: with the country \<^verbatim>\<open>US\<close> selected, the pie
  counts the one row of that country, the bar counts all three rows.
\<close>

theorem ownership_counts_of_displays_counterexample:
  "(case script no_float stamp_year
       \<lparr>columns = [''StoreNumber'', ''Latitude'', ''Longitude'', ''CountryCode'', ''City'',
                   ''OwnershipType'', ''FirstSeen''],
        rows = [[Str ''31-1200'', Num 47, Num (-122), Str ''US'', Str ''Seattle'', Str ''CO'',
                  Str ''12/08/2013 10:41:59 PM''],
                [Str ''32-15'', Num 43, Num (-79), Str ''CA'', Str ''Toronto'', Str ''LS'',
                  Str ''02/03/2017 12:00:00 AM''],
                [Str ''33-16'', Num 45, Num (-73), Str ''CA'', Str ''Montreal'', Str ''LS'',
                  Str ''02/03/2017 12:00:00 AM'']]\<rparr>
       (Str ''US'') [] of
      Inl e \<Rightarrow> False
    | Inr v \<Rightarrow> ownership_pie v = [(Str ''CO'', 1)]
        \<and> ownership_bar v = [(Str ''LS'', 2), (Str ''CO'', 1)]
        \<and> ownership_pie v \<noteq> ownership_bar v)"
  by code_simp

subsection \<open>The aggregations of a table without rows\<close>

lemma value_counts_Nil: "value_counts [] = []"
  by (simp add: value_counts_def dropna_def unique_Nil sort_by_Nil)

lemma nlargest_Nil: "nlargest n [] = []"
  by (cases n) simp_all

lemma cross_counts_Nil:
  "cross_counts [] [] = \<lparr>ct_index = [], ct_columns = [], ct_cells = []\<rparr>"
  by (simp add: cross_counts_def unique_Nil sort_by_Nil)

text \<open>
  Claim C9. On a table without rows that has the columns the aggregations read, none of
  the aggregations raises and each returns an empty result: the two top-10 rankings of the
  cities and the ownership counts are empty lists, and the city by ownership-type pivot
  and the year by ownership-type counts are cross tables without rows and columns.
\<close>

theorem aggregations_of_empty_table:
  assumes "rows data = []"
    and "index_of ''StoreNumber'' (columns data) = Some s"
    and "index_of ''City'' (columns data) = Some i"
    and "index_of ''OwnershipType'' (columns data) = Some c"
    and "index_of ''FirstSeen'' (columns data) = Some f"
  shows "city_counts data = Inr []
    \<and> top_cities data = Inr []
    \<and> ownership_counts data = Inr []
    \<and> pivot_table data ''StoreNumber'' ''City'' ''OwnershipType''
        = Inr \<lparr>ct_index = [], ct_columns = [], ct_cells = []\<rparr>
    \<and> store_counts_by_year strptime_year data
        = Inr \<lparr>ct_index = [], ct_columns = [], ct_cells = []\<rparr>
    \<and> cell_total \<lparr>ct_index = [], ct_columns = [], ct_cells = []\<rparr> = 0"
proof -
  have 1: "city_counts data = Inr []"
    using assms(1,3) by (simp add: city_counts_def get_column_def value_counts_Nil nlargest_Nil)
  have 2: "top_cities data = Inr []"
    using assms(1,3) by (simp add: top_cities_def get_column_def value_counts_Nil sort_by_Nil)
  have 3: "ownership_counts data = Inr []"
    using assms(1,4) by (simp add: ownership_counts_def get_column_def value_counts_Nil)
  have 4: "pivot_table data ''StoreNumber'' ''City'' ''OwnershipType''
        = Inr \<lparr>ct_index = [], ct_columns = [], ct_cells = []\<rparr>"
    using assms(1-4) by (simp add: pivot_table_def grouped_def keys_of_def cross_counts_Nil)
  let ?data' = "set_column data ''Year'' []"
  have a: "add_year strptime_year data = Inr ?data'"
    using assms(1,5) by (simp add: add_year_def get_column_def)
  have len: "length ([] :: cell list) = length (rows data)"
    using assms(1) by simp
  from set_column_cell_self [OF len, of "''Year''"]
  obtain ky where ky: "index_of ''Year'' (columns ?data') = Some ky" by blast
  have c': "index_of ''OwnershipType'' (columns ?data') = Some c"
    using assms(4) by (simp add: set_column_index_other)
  have r': "rows ?data' = []"
    using set_column_length [OF len, of "''Year''"] assms(1) by simp
  have 5: "store_counts_by_year strptime_year data
        = Inr \<lparr>ct_index = [], ct_columns = [], ct_cells = []\<rparr>"
    using a ky c' r'
    by (simp add: store_counts_by_year_def groupby_size_unstack_def grouped_def keys_of_def
        cross_counts_Nil)
  from 1 2 3 4 5 show ?thesis by (simp add: cell_total_def)
qed

theorem aggregations_of_empty_table_witness:
  "(let data = \<lparr>columns = [''StoreNumber'', ''lat'', ''lon'', ''CountryCode'', ''City'',
                            ''OwnershipType'', ''FirstSeen'', ''Density Category''],
                 rows = []\<rparr>
    in rows data = []
     \<and> index_of ''StoreNumber'' (columns data) = Some 0
     \<and> index_of ''City'' (columns data) = Some 4
     \<and> index_of ''OwnershipType'' (columns data) = Some 5
     \<and> index_of ''FirstSeen'' (columns data) = Some 6
     \<and> city_counts data = Inr []
     \<and> top_cities data = Inr []
     \<and> ownership_counts data = Inr []
     \<and> pivot_table data ''StoreNumber'' ''City'' ''OwnershipType''
         = Inr \<lparr>ct_index = [], ct_columns = [], ct_cells = []\<rparr>
     \<and> store_counts_by_year stamp_year data
         = Inr \<lparr>ct_index = [], ct_columns = [], ct_cells = []\<rparr>)"
proof -
  let ?data = "\<lparr>columns = [''StoreNumber'', ''lat'', ''lon'', ''CountryCode'', ''City'',
                            ''OwnershipType'', ''FirstSeen'', ''Density Category''],
                 rows = []\<rparr>"
  have r: "rows ?data = []" by simp
  have s: "index_of ''StoreNumber'' (columns ?data) = Some 0" by simp
  have i: "index_of ''City'' (columns ?data) = Some 4" by code_simp
  have c: "index_of ''OwnershipType'' (columns ?data) = Some 5" by code_simp
  have f: "index_of ''FirstSeen'' (columns ?data) = Some 6" by code_simp
  from aggregations_of_empty_table [OF r s i c f, of stamp_year] r s i c f
  show ?thesis unfolding Let_def by (intro conjI) blast+
qed

end
